theory Spec2Isabelle
  imports Main "HOL-Library.Monad_Syntax"
begin

section \<open>Python arithmetic used by the converter\<close>

text \<open>
  The script is Python 3. It divides integers with \<open>/\<close>, which yields a double, and
  wraps the quotient in \<open>int(...)\<close> (truncation toward zero) or \<open>math.ceil(...)\<close>.
  CPython computes \<open>a / b\<close> for integers as the double nearest to the exact quotient,
  ties to even, and raises \<open>OverflowError\<close> when that double is not finite and
  \<open>ZeroDivisionError\<close> for \<open>b = 0\<close>.

  \<open>round_half_even num den\<close> is the integer nearest to \<open>num / den\<close>, ties to even.
  \<open>scale_up\<close> finds the least \<open>s\<close> from which the quotient times \<open>2^s\<close> reaches \<open>2^52\<close>,
  up to the 1074 binary places of the smallest doubles; \<open>scale_down\<close> finds the least
  \<open>e\<close> from which the quotient over \<open>2^e\<close> is below \<open>2^53\<close>. \<open>truediv a b\<close> is the
  double \<open>a / b\<close> as a fraction \<open>(num, den)\<close> whose denominator is a power of two, or
  \<open>None\<close> when the division raises.
\<close>

definition round_half_even :: "int \<Rightarrow> int \<Rightarrow> int" where
  "round_half_even num den =
     (let q = num div den; r = num mod den in
      if 2 * r < den then q
      else if den < 2 * r then q + 1
      else if even q then q else q + 1)"

function scale_up :: "int \<Rightarrow> int \<Rightarrow> nat \<Rightarrow> nat" where
  "scale_up n d s =
     (if n = 0 \<or> 1074 \<le> s \<or> 2 ^ 52 * d \<le> n * 2 ^ s then s else scale_up n d (s + 1))"
  by pat_completeness auto
termination
  by (relation "measure (\<lambda>(n, d, s). 1074 - s)") auto

function scale_down :: "int \<Rightarrow> int \<Rightarrow> nat \<Rightarrow> nat" where
  "scale_down n d e =
     (if 972 \<le> e \<or> n < 2 ^ 53 * d * 2 ^ e then e else scale_down n d (e + 1))"
  by pat_completeness auto
termination
  by (relation "measure (\<lambda>(n, d, e). 972 - e)") auto

declare scale_up.simps [simp del] scale_down.simps [simp del]

definition truediv :: "int \<Rightarrow> int \<Rightarrow> (int \<times> int) option" where
  "truediv a b =
     (if b = 0 then None
      else
        (let n = \<bar>a\<bar>; d = \<bar>b\<bar>; sign = (if (a < 0) = (b < 0) then 1 else - 1) in
         if n < 2 ^ 53 * d then
           (let s = scale_up n d 0
            in Some (sign * round_half_even (n * 2 ^ s) d, 2 ^ s))
         else
           (let e = scale_down n d 1; m = round_half_even n (d * 2 ^ e) * 2 ^ e
            in if 2 ^ 1024 \<le> m then None else Some (sign * m, 1))))"

text \<open>\<open>int(a / b)\<close> and \<open>int(math.ceil(a / b))\<close>.\<close>

definition int_div :: "int \<Rightarrow> int \<Rightarrow> int option" where
  "int_div a b =
     map_option (\<lambda>(num, den). if 0 \<le> num then num div den else - ((- num) div den)) (truediv a b)"

definition ceil_div :: "int \<Rightarrow> int \<Rightarrow> int option" where
  "ceil_div a b = map_option (\<lambda>(num, den). - ((- num) div den)) (truediv a b)"

text \<open>A dictionary with literal contents is an association list; \<open>d[k]\<close> raises
  \<open>KeyError\<close> on a missing key, which is the value \<open>None\<close> here.\<close>

definition dict_get :: "('k \<times> 'v) list \<Rightarrow> 'k \<Rightarrow> 'v option" where
  "dict_get d k = map_of d k"

section \<open>Constants\<close>

definition LMMS_MEASURE_LENGTH :: int where
  "LMMS_MEASURE_LENGTH = 192"

definition NUM_DIVISIONS :: string where
  "NUM_DIVISIONS = ''8''"

definition INSTRUMENTS :: "string set" where
  "INSTRUMENTS = {''piano'', ''bass'', ''vibes'', ''orchestra'', ''violin'', ''cello'',
     ''tuba'', ''trombone'', ''french horn'', ''horn'', ''trumpet'', ''flute'', ''oboe'',
     ''clarinet'', ''bassoon'', ''street bass'', ''guitar'', ''str'', ''marc str'', ''pizz'',
     ''harp'', ''piccolo''}"

definition BASS_INSTRUMENTS :: "string set" where
  "BASS_INSTRUMENTS = {''bass'', ''cello'', ''double bass'', ''trombone'', ''tuba'',
     ''bassoon'', ''street bass''}"

definition NOTES :: "(int \<times> string) list" where
  "NOTES = [(0, ''C''), (1, ''C#''), (2, ''D''), (3, ''D#''), (4, ''E''), (5, ''F''),
     (6, ''F#''), (7, ''G''), (8, ''G#''), (9, ''A''), (10, ''A#''), (11, ''B'')]"

definition NOTE_TYPE :: "(string \<times> int) list" where
  "NOTE_TYPE = [(''whole'', 192), (''half'', 96), (''quarter'', 48), (''eighth'', 24),
     (''16th'', 12), (''32nd'', 6), (''64th'', 3)]"

definition NOTE_LENGTHS :: "(int \<times> string) list" where
  "NOTE_LENGTHS = [(192, ''whole''), (168, ''half''), (144, ''half''), (96, ''half''),
     (72, ''quarter''), (48, ''quarter''), (36, ''eighth''), (24, ''eighth''),
     (12, ''16th''), (6, ''32nd''), (3, ''64th'')]"

definition CLEF_TYPE :: "(string \<times> (string \<times> string)) list" where
  \<comment> \<open>clef name to (sign, line)\<close>
  "CLEF_TYPE = [(''treble'', (''G'', ''2'')), (''bass'', (''F'', ''4''))]"

section \<open>Duration model\<close>

text \<open>
  \<open>findClosestNoteType\<close> walks the keys of \<open>NOTE_LENGTHS\<close> in descending order and returns
  the entry of the first key not above the given length; when the loop ends without a
  return it yields \<open>NOTE_LENGTHS[3]\<close>.
\<close>

fun closestLoop :: "int list \<Rightarrow> int \<Rightarrow> string option option" where
  \<comment> \<open>outer \<open>None\<close>: the loop fell through; inner option: the dictionary access\<close>
  "closestLoop [] l = None"
| "closestLoop (noteLength # rest) l =
     (if noteLength \<le> l then Some (dict_get NOTE_LENGTHS noteLength)
      else closestLoop rest l)"

definition findClosestNoteType :: "int \<Rightarrow> string option" where
  "findClosestNoteType l =
     (case closestLoop (rev (sort (map fst NOTE_LENGTHS))) l of
        Some r \<Rightarrow> r
      | None \<Rightarrow> dict_get NOTE_LENGTHS 3)"

section \<open>Output elements\<close>

text \<open>
  The elements the script appends to a measure. \<open>NoteEl\<close> is a pitched \<open>note\<close> element:
  whether it has a \<open>chord\<close> child, the \<open>step\<close> text, whether it has an \<open>alter\<close> child
  (text \<open>1\<close>), and the \<open>octave\<close>, \<open>duration\<close> and \<open>type\<close> texts. \<open>RestEl\<close> is a \<open>note\<close>
  element with a \<open>rest\<close> child and \<open>duration\<close> and \<open>type\<close> texts. \<open>MeasureRestEl\<close> is the
  full-measure rest (\<open>rest measure="yes"\<close>) with its \<open>duration\<close> text. \<open>AttributesEl\<close> is the
  \<open>attributes\<close> block: divisions, fifths, beats, beat-type, clef sign and clef line.
\<close>

datatype element =
    NoteEl (is_chord: bool) (step: string) (has_alter: bool) (octave: string)
      (note_duration: string) (note_type: string)
  | RestEl (rest_duration: string) (rest_type: string)
  | MeasureRestEl (measure_rest_duration: string)
  | AttributesEl string string string string string string

record measure =
  number :: string
  children :: "element list"

section \<open>Rests\<close>

definition addRest :: "measure \<Rightarrow> string \<Rightarrow> measure" where
  "addRest parentNode type =
     (let dur = (if type = ''32nd'' then ''1''
                 else if type = ''16th'' then ''2''
                 else if type = ''eighth'' then ''4''
                 else if type = ''quarter'' then ''8''
                 else if type = ''half'' then ''16''
                 else '''')
      in parentNode\<lparr>children := children parentNode @ [RestEl dur type]\<rparr>)"

text \<open>
  \<open>getRests\<close> fills an \<open>OrderedDict\<close> with six distinct keys; the result is the list of
  its items in insertion order, or \<open>None\<close> when a division raises.
\<close>

definition getRests :: "int \<Rightarrow> (string \<times> int) list option" where
  "getRests initialDistance =
     do {
       numWholeRests \<leftarrow> int_div initialDistance LMMS_MEASURE_LENGTH;
       let remSize = initialDistance - numWholeRests * LMMS_MEASURE_LENGTH;
       numQuarterRests \<leftarrow> int_div remSize 48;
       let remSize = remSize - numQuarterRests * 48;
       numEighthRests \<leftarrow> int_div remSize 24;
       let remSize = remSize - numEighthRests * 24;
       num16thRests \<leftarrow> int_div remSize 12;
       let remSize = remSize - num16thRests * 12;
       num32ndRests \<leftarrow> int_div remSize 6;
       let remSize = remSize - num32ndRests * 6;
       num64thRests \<leftarrow> int_div remSize 3;
       Some [(''64th'', num64thRests), (''32nd'', num32ndRests), (''16th'', num16thRests),
             (''eighth'', numEighthRests), (''quarter'', numQuarterRests),
             (''whole'', numWholeRests)]
     }"

text \<open>
  The loop \<open>for rest in restsToAdd: for l in range(0, restsToAdd[rest]): addRest(m, rest)\<close>
  that every caller of \<open>getRests\<close> runs. \<open>range(0, c)\<close> is empty for \<open>c \<le> 0\<close>.
\<close>

fun addRests :: "measure \<Rightarrow> (string \<times> int) list \<Rightarrow> measure" where
  "addRests m [] = m"
| "addRests m ((rest, c) # others) =
     addRests (foldl addRest m (replicate (nat c) rest)) others"

text \<open>
  The tick total of a rest table: each count times the length \<open>NOTE_TYPE\<close> gives its type.
\<close>

fun restsTicks :: "(string \<times> int) list \<Rightarrow> int option" where
  "restsTicks [] = Some 0"
| "restsTicks ((t, c) # others) =
     (case dict_get NOTE_TYPE t of
        None \<Rightarrow> None
      | Some ticks \<Rightarrow> map_option (\<lambda>s. c * ticks + s) (restsTicks others))"

section \<open>Notes and the length table\<close>

text \<open>
  A \<open>note\<close> element of the project file, with the integer values the script reads from
  its \<open>key\<close>, \<open>pos\<close> and \<open>len\<close> attributes. The script pairs every note with the number
  of the measure it assigned to it.
\<close>

record lmms_note =
  key :: int
  pos :: int
  len :: int

type_synonym tagged_note = "lmms_note \<times> int"

type_synonym length_table = "int \<rightharpoonup> int"

text \<open>
  One round of the loop of \<open>createLengthTable\<close>, for \<open>notes[i]\<close> with \<open>following\<close> the notes
  after it (\<open>notes[i+1]\<close> is its head; it is empty when \<open>i = len(notes) - 1\<close>). The value
  stored at \<open>p\<close> is the one the assignments of the round leave there.
\<close>

definition lengthTableStep :: "length_table \<Rightarrow> tagged_note \<Rightarrow> tagged_note list \<Rightarrow> length_table" where
  "lengthTableStep lengthTable noteAndMeasure following =
     (let p = pos (fst noteAndMeasure); l = len (fst noteAndMeasure) in
      case lengthTable p of
        Some stored \<Rightarrow>
          (let stored = (if l < stored then l else stored) in
           case following of
             [] \<Rightarrow> lengthTable(p \<mapsto> stored)
           | nextNote # _ \<Rightarrow>
               (if l + p > pos (fst nextNote) \<and> p \<noteq> pos (fst nextNote) then
                  (let nextNotePos = pos (fst nextNote) in
                   if nextNotePos - p < stored then lengthTable(p \<mapsto> nextNotePos - p)
                   else lengthTable(p \<mapsto> stored))
                else lengthTable(p \<mapsto> stored)))
      | None \<Rightarrow>
          (let currMeasurePos = (snd noteAndMeasure - 1) * LMMS_MEASURE_LENGTH;
               nextMeasurePos = currMeasurePos + LMMS_MEASURE_LENGTH;
               currNoteDistance = p + l;
               l = (if currNoteDistance > nextMeasurePos then nextMeasurePos - p else l);
               l = (case following of
                      [] \<Rightarrow> l
                    | nextNote # _ \<Rightarrow>
                        (let prevNotePos = pos (fst nextNote) in
                         if l + p > prevNotePos \<and> p \<noteq> prevNotePos then prevNotePos - p
                         else l))
           in lengthTable(p \<mapsto> l)))"

fun lengthTableLoop :: "length_table \<Rightarrow> tagged_note list \<Rightarrow> length_table" where
  "lengthTableLoop lengthTable [] = lengthTable"
| "lengthTableLoop lengthTable (n # following) =
     lengthTableLoop (lengthTableStep lengthTable n following) following"

definition createLengthTable :: "tagged_note list \<Rightarrow> length_table" where
  "createLengthTable notes = lengthTableLoop Map.empty notes"

text \<open>
  The measure tag of the first note at a position: the tag \<open>createLengthTable\<close> reads when
  it records the position.
\<close>

fun firstMeasureAt :: "tagged_note list \<Rightarrow> int \<Rightarrow> int option" where
  "firstMeasureAt [] p = None"
| "firstMeasureAt (n # following) p =
     (if pos (fst n) = p then Some (snd n) else firstMeasureAt following p)"

section \<open>Flattening the pattern chunks\<close>

text \<open>
  A \<open>pattern\<close> element: its \<open>pos\<close> attribute and its notes in document order. A \<open>track\<close>
  element: its \<open>name\<close> attribute and its patterns in document order.
\<close>

record pattern =
  pattern_pos :: int
  pattern_notes :: "lmms_note list"

record track =
  name :: string
  patterns :: "pattern list"

text \<open>
  The value of \<open>measureNum\<close> after the test \<open>if newPos >= (measureNum*LMMS_MEASURE_LENGTH)\<close>
  of the inner loop, as a function of its value before and of \<open>newPos\<close>.
\<close>

definition measureNumAfter :: "int \<Rightarrow> int \<Rightarrow> int option" where
  "measureNumAfter measureNum newPos =
     (if newPos \<ge> measureNum * LMMS_MEASURE_LENGTH then
        (if newPos < (measureNum + 1) * LMMS_MEASURE_LENGTH then Some (measureNum + 1)
         else
           do {
             c \<leftarrow> ceil_div newPos LMMS_MEASURE_LENGTH;
             Some (c + 1)
           })
      else Some measureNum)"

text \<open>
  The inner loop over the notes of one chunk: the position of each note is rewritten to
  \<open>chunkPos + notePos\<close>, \<open>measureNum\<close> is carried from note to note, and the pair of the
  note and the measure number is appended to \<open>patternNotes\<close>.
\<close>

fun chunkNotes :: "int \<Rightarrow> int \<Rightarrow> lmms_note list \<Rightarrow> tagged_note list option" where
  "chunkNotes chunkPos measureNum [] = Some []"
| "chunkNotes chunkPos measureNum (n # chunk) =
     do {
       let notePos = pos n;
       let newPos = chunkPos + notePos;
       measureNum \<leftarrow> measureNumAfter measureNum newPos;
       others \<leftarrow> chunkNotes chunkPos measureNum chunk;
       Some ((n\<lparr>pos := newPos\<rparr>, measureNum) # others)
     }"

definition flattenChunk :: "pattern \<Rightarrow> tagged_note list option" where
  "flattenChunk c =
     do {
       let chunkPos = pattern_pos c;
       q \<leftarrow> int_div chunkPos LMMS_MEASURE_LENGTH;
       let measureNum = q + 1;
       chunkNotes chunkPos measureNum (pattern_notes c)
     }"

text \<open>
  \<open>patternNotes\<close> after the loop over the chunks and the stable sort by position.
\<close>

definition patternNotes :: "pattern list \<Rightarrow> tagged_note list option" where
  "patternNotes patternChunks =
     do {
       flattened \<leftarrow> those (map flattenChunk patternChunks);
       Some (sort_key (\<lambda>p. pos (fst p)) (concat flattened))
     }"


section \<open>Decimal text\<close>

text \<open>\<open>str(i)\<close> for an integer \<open>i\<close>.\<close>

fun str_nat :: "nat \<Rightarrow> string" where
  "str_nat n =
     (if n < 10 then [''0123456789'' ! n]
      else str_nat (n div 10) @ [''0123456789'' ! (n mod 10)])"

declare str_nat.simps [simp del]

definition str :: "int \<Rightarrow> string" where
  "str i = (if i < 0 then CHR ''-'' # str_nat (nat (- i)) else str_nat (nat i))"

section \<open>Notes and measures\<close>

text \<open>
  \<open>NOTE_TYPE[findClosestNoteType(lengthTable[position])]\<close>: the length of the note type
  chosen for the length recorded at a position. The script writes this expression in
  \<open>addNote\<close> and three times in its main loop.
\<close>

definition noteTypeLength :: "length_table \<Rightarrow> int \<Rightarrow> int option" where
  "noteTypeLength lengthTable position =
     do {
       l \<leftarrow> lengthTable position;
       t \<leftarrow> findClosestNoteType l;
       dict_get NOTE_TYPE t
     }"

text \<open>
  \<open>addNote\<close> appends a \<open>note\<close> element to \<open>parentNode\<close>; \<open>newNote\<close> is that element, as
  the function fills and returns it. \<open>lengthTable\<close> may be \<open>None\<close>, as in the script; every
  access that can raise yields \<open>None\<close> for the whole call.
\<close>

definition newNote :: "lmms_note \<Rightarrow> bool \<Rightarrow> length_table option \<Rightarrow> element option" where
  "newNote n isChord lengthTable =
     do {
       pitch \<leftarrow> dict_get NOTES (key n mod 12);
       let position = pos n;
       newStep \<leftarrow> (case pitch of [] \<Rightarrow> None | c # _ \<Rightarrow> Some [c]);
       let newAlter = (length pitch > 1 \<and> pitch ! 1 = CHR ''#'');
       octave \<leftarrow> int_div (key n) 12;
       noteLength \<leftarrow> (case lengthTable of
                        None \<Rightarrow> Some (len n)
                      | Some table \<Rightarrow> noteTypeLength table position);
       duration \<leftarrow> int_div noteLength 6;
       newType \<leftarrow> findClosestNoteType noteLength;
       Some (NoteEl isChord newStep newAlter (str octave) (str duration) newType)
     }"

definition addNote :: "measure \<Rightarrow> lmms_note \<Rightarrow> bool \<Rightarrow> length_table option \<Rightarrow> measure option" where
  "addNote parentNode n isChord lengthTable =
     do {
       e \<leftarrow> newNote n isChord lengthTable;
       Some (parentNode\<lparr>children := children parentNode @ [e]\<rparr>)
     }"

definition createMeasure :: "int \<Rightarrow> measure" where
  "createMeasure measureCounter = \<lparr>number = str measureCounter, children = []\<rparr>"

definition createFirstMeasure :: "int \<Rightarrow> string \<Rightarrow> bool \<Rightarrow> measure option" where
  "createFirstMeasure measureCounter clefType isRest =
     do {
       let firstMeasure = createMeasure measureCounter;
       clef \<leftarrow> dict_get CLEF_TYPE clefType;
       let newMeasureAttributes = AttributesEl NUM_DIVISIONS ''0'' ''4'' ''4'' (fst clef) (snd clef);
       Some (firstMeasure\<lparr>children := children firstMeasure @
               (if isRest then [newMeasureAttributes, MeasureRestEl ''32'']
                else [newMeasureAttributes])\<rparr>)
     }"

definition addRestMeasure :: "int \<Rightarrow> measure" where
  "addRestMeasure measureCounter = \<lparr>number = str measureCounter, children = [MeasureRestEl ''32'']\<rparr>"

definition addNewMeasure :: "int \<Rightarrow> measure" where
  "addNewMeasure measureNum = \<lparr>number = str measureNum, children = []\<rparr>"

section \<open>The layout of one part\<close>

text \<open>
  The state of the loop over the notes of one instrument. The children of \<open>currentPart\<close>
  are \<open>closed @ [currMeasure]\<close>: whenever the script appends measures to the part it then
  appends a new measure and makes it \<open>currMeasure\<close>. \<open>partMeasure\<close> is
  \<open>partMeasures[currentPart]\<close>.
\<close>

record layout =
  closed :: "measure list"
  currMeasure :: measure
  lastMeasureNum :: int
  positionsSeen :: "int set"
  partMeasure :: int

text \<open>
  The padding at the end of a measure, run when
  \<open>(k < len(notes) - 1 and notes[k+1][1] > measureNum) or (k == len(notes) - 1)\<close>.
\<close>

definition padMeasure :: "length_table \<Rightarrow> tagged_note \<Rightarrow> tagged_note list \<Rightarrow> measure \<Rightarrow> measure option" where
  "padMeasure positionLengths noteAndMeasure following m =
     (let position = pos (fst noteAndMeasure); measureNum = snd noteAndMeasure in
      if (case following of [] \<Rightarrow> True | nextNote # _ \<Rightarrow> snd nextNote > measureNum) then
        do {
          c \<leftarrow> noteTypeLength positionLengths position;
          let size = measureNum * LMMS_MEASURE_LENGTH - (position + c);
          padRestsToAdd \<leftarrow> getRests size;
          Some (addRests m padRestsToAdd)
        }
      else Some m)"

text \<open>
  The placing of \<open>notes[k]\<close> in \<open>currMeasure\<close> when it stays in the measure of the note
  before it: a chord entry when its position was seen, otherwise the rests since the end
  of the previous note (since the start of the measure when \<open>k = 0\<close>) and then the note.
  \<open>prev\<close> is \<open>notes[k-1]\<close>, \<open>None\<close> when \<open>k = 0\<close>.
\<close>

definition placeNote ::
  "length_table \<Rightarrow> tagged_note option \<Rightarrow> tagged_note \<Rightarrow> int set \<Rightarrow> measure \<Rightarrow> measure option" where
  "placeNote positionLengths prev noteAndMeasure seen m =
     (let n = fst noteAndMeasure; measureNum = snd noteAndMeasure; position = pos n in
      if position \<in> seen then addNote m n True (Some positionLengths)
      else
        do {
          restsToAdd \<leftarrow>
            (case prev of
               Some prevNote \<Rightarrow>
                 do {
                   let prevNotePos = pos (fst prevNote);
                   c \<leftarrow> noteTypeLength positionLengths prevNotePos;
                   getRests (position - (prevNotePos + c))
                 }
             | None \<Rightarrow> getRests (position - (measureNum - 1) * LMMS_MEASURE_LENGTH));
          addNote (addRests m restsToAdd) n False (Some positionLengths)
        })"

text \<open>The placing of \<open>notes[k]\<close> in a measure that was just created for it.\<close>

definition placeNoteInNewMeasure ::
  "length_table \<Rightarrow> tagged_note \<Rightarrow> int set \<Rightarrow> measure \<Rightarrow> measure option" where
  "placeNoteInNewMeasure positionLengths noteAndMeasure seen m =
     (let n = fst noteAndMeasure; measureNum = snd noteAndMeasure; position = pos n in
      if position \<in> seen then addNote m n True (Some positionLengths)
      else
        do {
          restsToAdd \<leftarrow> getRests (position - (measureNum - 1) * LMMS_MEASURE_LENGTH);
          addNote (addRests m restsToAdd) n False (Some positionLengths)
        })"

text \<open>
  One round of the loop, for \<open>notes[k]\<close>; \<open>prev\<close> is \<open>notes[k-1]\<close> (\<open>None\<close> when \<open>k = 0\<close>) and
  \<open>following\<close> the notes after \<open>notes[k]\<close>. The position joins \<open>positionsSeen\<close> when it is
  not in it yet.
\<close>

definition layoutStep ::
  "length_table \<Rightarrow> tagged_note option \<Rightarrow> tagged_note \<Rightarrow> tagged_note list \<Rightarrow> layout \<Rightarrow> layout option" where
  "layoutStep positionLengths prev noteAndMeasure following s =
     (let measureNum = snd noteAndMeasure; position = pos (fst noteAndMeasure) in
      if lastMeasureNum s = measureNum then
        do {
          m \<leftarrow> placeNote positionLengths prev noteAndMeasure (positionsSeen s) (currMeasure s);
          m \<leftarrow> padMeasure positionLengths noteAndMeasure following m;
          Some (s\<lparr>currMeasure := m, positionsSeen := insert position (positionsSeen s),
                  partMeasure := measureNum, lastMeasureNum := measureNum\<rparr>)
        }
      else
        (case prev of
           None \<Rightarrow> Some (s\<lparr>partMeasure := measureNum, lastMeasureNum := measureNum\<rparr>)
         | Some prevNote \<Rightarrow>
             do {
               let numWholeRests = measureNum - lastMeasureNum s - 1;
               let restMeasures = map (\<lambda>i. addRestMeasure (snd prevNote + i + 1)) [0..numWholeRests - 1];
               m \<leftarrow> placeNoteInNewMeasure positionLengths noteAndMeasure (positionsSeen s)
                     (addNewMeasure measureNum);
               m \<leftarrow> padMeasure positionLengths noteAndMeasure following m;
               Some (s\<lparr>closed := closed s @ [currMeasure s] @ restMeasures, currMeasure := m,
                       positionsSeen := insert position (positionsSeen s),
                       partMeasure := measureNum, lastMeasureNum := measureNum\<rparr>)
             }))"

fun layoutLoop ::
  "length_table \<Rightarrow> tagged_note option \<Rightarrow> tagged_note list \<Rightarrow> layout \<Rightarrow> layout option" where
  "layoutLoop positionLengths prev [] s = Some s"
| "layoutLoop positionLengths prev (n # following) s =
     do {
       s' \<leftarrow> layoutStep positionLengths prev n following s;
       layoutLoop positionLengths (Some n) following s'
     }"

text \<open>
  The measures made before the loop, for the measure number of the first note: the
  closed measures and \<open>currMeasure\<close>.
\<close>

definition firstMeasures :: "string \<Rightarrow> int \<Rightarrow> (measure list \<times> measure) option" where
  "firstMeasures trackName firstNoteMeasureNum =
     (let clef = (if trackName \<in> BASS_INSTRUMENTS then ''bass'' else ''treble'') in
      if firstNoteMeasureNum = 1 then
        do {
          m \<leftarrow> createFirstMeasure firstNoteMeasureNum clef False;
          Some ([], m)
        }
      else
        do {
          let numWholeRests = firstNoteMeasureNum - 1;
          rests \<leftarrow> those (map (\<lambda>i. if i = 0 then createFirstMeasure (i + 1) clef True
                                     else Some (addRestMeasure (i + 1)))
                              [0..numWholeRests - 1]);
          Some (rests, addNewMeasure firstNoteMeasureNum)
        })"

text \<open>
  The body of the loop over the tracks for an instrument that has notes: the measures of
  the part when the loop over its notes ends, and its entry in \<open>partMeasures\<close>.
\<close>

definition layoutPart :: "string \<Rightarrow> tagged_note list \<Rightarrow> (measure list \<times> int) option" where
  "layoutPart trackName notes =
     (case notes of
        [] \<Rightarrow> None
      | firstNote # _ \<Rightarrow>
          do {
            let positionLengths = createLengthTable notes;
            let firstNoteMeasureNum = snd firstNote;
            (before, m) \<leftarrow> firstMeasures trackName firstNoteMeasureNum;
            s \<leftarrow> layoutLoop positionLengths None notes
                  \<lparr>closed = before, currMeasure = m, lastMeasureNum = firstNoteMeasureNum,
                   positionsSeen = {}, partMeasure = 0\<rparr>;
            Some (closed s @ [currMeasure s], partMeasure s)
          })"

section \<open>The whole conversion\<close>

text \<open>
  A \<open>part\<close> element with its \<open>id\<close> and measures; \<open>measures_entry\<close> is the value of
  \<open>partMeasures\<close> for this element (\<open>None\<close> when the element is not a key, which is the
  case for an instrument without notes). A \<open>score-part\<close> element of the part list has its
  \<open>id\<close> and its \<open>part-name\<close> text.
\<close>

record part =
  part_id :: string
  measures :: "measure list"
  measures_entry :: "int option"

record score_part =
  score_part_id :: string
  part_name :: string

record document =
  movement_title :: string
  part_list :: "score_part list"
  parts :: "part list"

text \<open>The first loop over the tracks: the part list.\<close>

fun declareParts :: "int \<Rightarrow> track list \<Rightarrow> score_part list" where
  "declareParts instrumentCounter [] = []"
| "declareParts instrumentCounter (el # els) =
     (if name el \<in> INSTRUMENTS then
        \<lparr>score_part_id = ''P'' @ str instrumentCounter, part_name = name el\<rparr>
          # declareParts (instrumentCounter + 1) els
      else declareParts instrumentCounter els)"

text \<open>
  The second loop over the tracks. Its state: \<open>instrumentCounter\<close>, the \<open>part\<close> children of
  \<open>scorePartwise\<close> so far, and \<open>emptyInstruments\<close>. For an instrument without notes the
  script runs \<open>continue\<close> before the increment of \<open>instrumentCounter\<close>.
\<close>

record conversion =
  instrumentCounter :: int
  score_parts :: "part list"
  emptyInstruments :: "string list"

definition layoutTrack :: "conversion \<Rightarrow> track \<Rightarrow> conversion option" where
  "layoutTrack st el =
     (if name el \<in> INSTRUMENTS then
        do {
          let partId = ''P'' @ str (instrumentCounter st);
          notes \<leftarrow> patternNotes (patterns el);
          if length notes = 0 then
            Some (st\<lparr>score_parts := score_parts st @
                        [\<lparr>part_id = partId, measures = [], measures_entry = None\<rparr>],
                      emptyInstruments := emptyInstruments st @ [partId]\<rparr>)
          else
            do {
              (ms, final) \<leftarrow> layoutPart (name el) notes;
              Some (st\<lparr>score_parts := score_parts st @
                          [\<lparr>part_id = partId, measures = ms, measures_entry = Some final\<rparr>],
                        instrumentCounter := instrumentCounter st + 1\<rparr>)
            }
        }
      else Some st)"

fun layoutTracks :: "conversion \<Rightarrow> track list \<Rightarrow> conversion option" where
  "layoutTracks st [] = Some st"
| "layoutTracks st (el # els) =
     do {
       st' \<leftarrow> layoutTrack st el;
       layoutTracks st' els
     }"

text \<open>The two loops over \<open>partMeasures\<close> after all parts are laid out.\<close>

fun highestNumMeasures :: "int \<Rightarrow> part list \<Rightarrow> int" where
  "highestNumMeasures highest [] = highest"
| "highestNumMeasures highest (p # ps) =
     highestNumMeasures
       (case measures_entry p of
          Some m \<Rightarrow> if m > highest then m else highest
        | None \<Rightarrow> highest) ps"

definition padPart :: "int \<Rightarrow> part \<Rightarrow> part" where
  "padPart highest p =
     (case measures_entry p of
        Some m \<Rightarrow>
          if m < highest then p\<lparr>measures := measures p @ map addRestMeasure [m + 1..highest]\<rparr>
          else p
      | None \<Rightarrow> p)"

definition padParts :: "part list \<Rightarrow> part list" where
  "padParts ps = map (padPart (highestNumMeasures 0 ps)) ps"

text \<open>The removal of the nodes whose \<open>id\<close> is in \<open>emptyInstruments\<close>.\<close>

fun removeEmpty :: "string list \<Rightarrow> part list \<times> score_part list \<Rightarrow> part list \<times> score_part list" where
  "removeEmpty [] doc = doc"
| "removeEmpty (partID # others) (ps, partList) =
     removeEmpty others
       (filter (\<lambda>p. part_id p \<noteq> partID) ps,
        filter (\<lambda>p. score_part_id p \<noteq> partID) partList)"

definition convert :: "track list \<Rightarrow> document option" where
  "convert tracks =
     do {
       let partList = declareParts 1 tracks;
       st \<leftarrow> layoutTracks \<lparr>instrumentCounter = 1, score_parts = [], emptyInstruments = []\<rparr> tracks;
       let padded = padParts (score_parts st);
       let (ps, partList) = removeEmpty (emptyInstruments st) (padded, partList);
       Some \<lparr>movement_title = ''title of piece goes here'', part_list = partList, parts = ps\<rparr>
     }"

text \<open>The number a duration text stands for; the empty text counts 0.\<close>

definition durationValue :: "string \<Rightarrow> nat" where
  "durationValue text = foldl (\<lambda>a c. 10 * a + (of_char c - 48)) 0 text"

fun elementDuration :: "element \<Rightarrow> nat" where
  "elementDuration (NoteEl isChord st alt oct dur ty) = (if isChord then 0 else durationValue dur)"
| "elementDuration (RestEl dur ty) = durationValue dur"
| "elementDuration (MeasureRestEl dur) = durationValue dur"
| "elementDuration (AttributesEl d f b bt sign line) = 0"

section \<open>Reading the output\<close>

text \<open>The pitched notes of a part, in document order.\<close>

fun isNoteEl :: "element \<Rightarrow> bool" where
  "isNoteEl (NoteEl isChord st alt oct dur ty) = True"
| "isNoteEl e = False"

definition noteElements :: "measure list \<Rightarrow> element list" where
  "noteElements ms = filter isNoteEl (concat (map children ms))"

text \<open>
  \<open>emittedNotes lengthTable seen notes es\<close>: the elements \<open>es\<close> are the \<open>newNote\<close> elements of
  the notes, in order, each one a chord entry exactly when its position is in \<open>seen\<close> or
  is the position of an earlier note of the list.
\<close>

fun emittedNotes :: "length_table \<Rightarrow> int set \<Rightarrow> tagged_note list \<Rightarrow> element list \<Rightarrow> bool" where
  "emittedNotes lengthTable seen [] es = (es = [])"
| "emittedNotes lengthTable seen (n # following) es =
     (case es of
        [] \<Rightarrow> False
      | e # es' \<Rightarrow>
          newNote (fst n) (pos (fst n) \<in> seen) (Some lengthTable) = Some e
          \<and> emittedNotes lengthTable (insert (pos (fst n)) seen) following es')"

text \<open>
  The \<open>number\<close> attributes of the measures of a part, in document order, with the entry of
  the part in \<open>partMeasures\<close>.
\<close>

definition partNumbers :: "part \<Rightarrow> string list \<times> int option" where
  "partNumbers p = (map number (measures p), measures_entry p)"

section \<open>Division through doubles below \<open>2^53\<close>\<close>

lemma scale_up_result:
  "s0 \<le> 1074 \<Longrightarrow> 0 < n \<Longrightarrow> scale_up n d s0 = 1074 \<or> 2 ^ 52 * d \<le> n * 2 ^ scale_up n d s0"
proof (induction n d s0 rule: scale_up.induct)
  case (1 n d s)
  show ?case
  proof (cases "n = 0 \<or> 1074 \<le> s \<or> 2 ^ 52 * d \<le> n * 2 ^ s")
    case True
    then have "scale_up n d s = s" by (simp add: scale_up.simps)
    then show ?thesis using True "1.prems" by auto
  next
    case False
    then have "scale_up n d s = scale_up n d (s + 1)" by (subst scale_up.simps) simp
    moreover have "s + 1 \<le> 1074" using False by simp
    ultimately show ?thesis using "1.IH" [OF False] "1.prems" by simp
  qed
qed

lemma round_half_even_cases:
  assumes "0 < den"
  shows "round_half_even num den = num div den
           \<or> (round_half_even num den = num div den + 1 \<and> den \<le> 2 * (num mod den))"
  by (auto simp: round_half_even_def Let_def)

lemma round_half_even_up:
  assumes "den < 2 * (num mod den)"
  shows "round_half_even num den = num div den + 1"
  using assms by (simp add: round_half_even_def Let_def)

text \<open>The mantissa of the quotient determines its floor and its ceiling.\<close>

lemma rounding_window:
  fixes n d P :: int
  assumes n: "0 \<le> n" and d: "0 < d" and P: "d < 2 * P"
  defines "m \<equiv> round_half_even (n * P) d"
  shows "(n div d) * P \<le> m" "m < (n div d + 1) * P" "n mod d \<noteq> 0 \<Longrightarrow> (n div d) * P < m"
    "n mod d = 0 \<Longrightarrow> m = (n div d) * P"
proof -
  define N where "N = n div d"
  define r where "r = n mod d"
  define y where "y = r * P"
  define k where "k = y div d"
  define r' where "r' = y mod d"
  have Ppos: "0 < P" using d P by linarith
  have r: "0 \<le> r" "r < d" using d by (simp_all add: r_def)
  have nNr: "n = N * d + r" by (simp add: N_def r_def)
  have x: "n * P = (N * P) * d + y" by (simp add: nNr y_def algebra_simps)
  have q: "(n * P) div d = N * P + k"
    unfolding x k_def using d by simp
  have rm: "(n * P) mod d = r'"
    unfolding x r'_def by simp
  have y: "y = k * d + r'" by (simp add: k_def r'_def)
  have r'b: "0 \<le> r'" "r' < d" using d by (simp_all add: r'_def)
  have y0: "0 \<le> y" using r Ppos by (simp add: y_def)
  have k0: "0 \<le> k" using y0 d by (simp add: k_def pos_imp_zdiv_nonneg_iff)
  have z: "P \<le> (d - r) * P"
    using r Ppos by (simp add: mult_le_cancel_right1)
  have ydP: "y = d * P - (d - r) * P" by (simp add: y_def algebra_simps)
  have ylt: "y < d * P" using z ydP Ppos by linarith
  have kP: "k < P"
  proof (rule ccontr)
    assume "\<not> k < P"
    then have "P \<le> k" by simp
    then have "d * P \<le> d * k" using d by (simp add: mult_left_mono)
    moreover have "y = d * k + r'" using y by (simp add: mult.commute)
    ultimately show False using r'b ylt by linarith
  qed
  have up: "k \<le> P - 2" if "d \<le> 2 * r'"
  proof (rule ccontr)
    assume "\<not> k \<le> P - 2"
    then have "k = P - 1" using kP by linarith
    then have "k * d = (P - 1) * d" by simp
    then have "k * d = d * P - d" by (simp add: algebra_simps)
    then have "r' = d - (d - r) * P" using y ydP by linarith
    then show False using that z P by linarith
  qed
  consider "m = N * P + k" | "m = N * P + k + 1" "d \<le> 2 * r'"
    using round_half_even_cases [OF d, of "n * P"] unfolding m_def q rm by auto
  then have win: "N * P \<le> m \<and> m < (N + 1) * P"
  proof cases
    case 1
    then show ?thesis using k0 kP by (simp add: algebra_simps)
  next
    case 2
    then show ?thesis using k0 up by (simp add: algebra_simps)
  qed
  show "(n div d) * P \<le> m" "m < (n div d + 1) * P" using win by (simp_all add: N_def)
  show "(n div d) * P < m" if "n mod d \<noteq> 0"
  proof -
    have r1: "1 \<le> r" using that r by (simp add: r_def)
    show ?thesis
    proof (cases "k = 0")
      case True
      then have "r' = y" using y by simp
      moreover have "P \<le> y" using r1 Ppos by (simp add: y_def mult_le_cancel_right1)
      ultimately have "d < 2 * r'" using P by linarith
      then have "m = N * P + k + 1"
        using round_half_even_up [of d "n * P"] unfolding m_def q rm by simp
      then show ?thesis using True by (simp add: N_def)
    next
      case False
      then have "1 \<le> k" using k0 by linarith
      moreover have "N * P + k \<le> m"
        using round_half_even_cases [OF d, of "n * P"] unfolding m_def q rm by auto
      ultimately show ?thesis by (simp add: N_def)
    qed
  qed
  show "m = (n div d) * P" if "n mod d = 0"
  proof -
    have "y = 0" using that by (simp add: y_def r_def)
    then have "k = 0" "r' = 0" by (simp_all add: k_def r'_def)
    then show ?thesis
      using d unfolding m_def round_half_even_def Let_def q rm by (simp add: N_def)
  qed
qed


lemma truediv_small:
  assumes a: "\<bar>a\<bar> < 2 ^ 53" and b: "0 < b" "b < 2 ^ 53"
  shows "\<exists>m s. truediv a b = Some ((if a < 0 then - 1 else 1) * m, 2 ^ s)
     \<and> (\<bar>a\<bar> div b) * 2 ^ s \<le> m \<and> m < (\<bar>a\<bar> div b + 1) * 2 ^ s
     \<and> (\<bar>a\<bar> mod b \<noteq> 0 \<longrightarrow> (\<bar>a\<bar> div b) * 2 ^ s < m)
     \<and> (\<bar>a\<bar> mod b = 0 \<longrightarrow> m = (\<bar>a\<bar> div b) * 2 ^ s)"
proof -
  define n where "n = \<bar>a\<bar>"
  define s where "s = scale_up n b 0"
  define m where "m = round_half_even (n * 2 ^ s) b"
  have n0: "0 \<le> n" by (simp add: n_def)
  have "n < 2 ^ 53 * 1" using a by (simp add: n_def)
  also have "\<dots> \<le> 2 ^ 53 * b" using b by (intro mult_left_mono) simp_all
  finally have small: "n < 2 ^ 53 * b" .
  have t: "truediv a b = Some ((if a < 0 then - 1 else 1) * m, 2 ^ s)"
    using b small unfolding truediv_def Let_def n_def [symmetric] s_def m_def by auto
  have props: "(n div b) * 2 ^ s \<le> m \<and> m < (n div b + 1) * 2 ^ s
     \<and> (n mod b \<noteq> 0 \<longrightarrow> (n div b) * 2 ^ s < m) \<and> (n mod b = 0 \<longrightarrow> m = (n div b) * 2 ^ s)"
  proof (cases "n = 0")
    case True
    then have "m = 0" using b by (simp add: m_def round_half_even_def)
    then show ?thesis using True by simp
  next
    case False
    then have npos: "0 < n" using n0 by simp
    have P: "b < 2 * 2 ^ s"
    proof -
      consider "s = 1074" | "2 ^ 52 * b \<le> n * 2 ^ s"
        using scale_up_result [of 0 n b] npos unfolding s_def by auto
      then show ?thesis
      proof cases
        case 1
        have "(2::int) ^ 53 \<le> 2 * 2 ^ 1074" by simp
        then show ?thesis using b 1 by simp
      next
        case 2
        define P :: int where "P = 2 ^ s"
        have "n < 2 ^ 53" using a by (simp add: n_def)
        moreover have "0 < P" by (simp add: P_def)
        ultimately have "n * P < 2 ^ 53 * P" by (rule mult_strict_right_mono)
        moreover have "2 ^ 52 * b \<le> n * P" using 2 by (simp add: P_def)
        ultimately have "b < 2 * P" by simp
        then show ?thesis by (simp add: P_def)
      qed
    qed
    show ?thesis
      using rounding_window [OF n0 b(1) P] unfolding m_def by blast
  qed
  show ?thesis
    using t props unfolding n_def by (intro exI [of _ m] exI [of _ s]) simp
qed

lemma floor_window:
  fixes m N P :: int
  assumes "N * P \<le> m" "m < (N + 1) * P"
  shows "m div P = N"
proof -
  have "m = P * N + (m - N * P)" by (simp add: algebra_simps)
  moreover have "0 \<le> m - N * P" using assms(1) by simp
  moreover have "m - N * P < P" using assms(2) by (simp add: algebra_simps)
  ultimately show ?thesis by (rule int_div_pos_eq)
qed



lemma int_div_exact:
  assumes "\<bar>a\<bar> < 2 ^ 53" "0 < b" "b < 2 ^ 53"
  shows "int_div a b = Some (if 0 \<le> a then a div b else - ((- a) div b))"
proof -
  obtain m s where t: "truediv a b = Some ((if a < 0 then - 1 else 1) * m, 2 ^ s)"
    and w: "(\<bar>a\<bar> div b) * 2 ^ s \<le> m" "m < (\<bar>a\<bar> div b + 1) * 2 ^ s"
    using truediv_small [OF assms] by (elim exE conjE) (rule that, assumption+)
  have f: "m div 2 ^ s = \<bar>a\<bar> div b" using w by (rule floor_window)
  have m0: "0 \<le> m"
  proof -
    have "0 \<le> \<bar>a\<bar> div b" using assms(2) by (simp add: pos_imp_zdiv_nonneg_iff)
    then have "0 \<le> (\<bar>a\<bar> div b) * 2 ^ s" by simp
    then show ?thesis using w(1) by linarith
  qed
  show ?thesis
  proof (cases "0 \<le> a")
    case True
    then show ?thesis using t f m0 by (simp add: int_div_def)
  next
    case False
    then have an: "\<bar>a\<bar> = - a" by simp
    show ?thesis
    proof (cases "m = 0")
      case True
      then have "(- a) div b = 0" using f an by simp
      then show ?thesis using t False True by (simp add: int_div_def)
    next
      case nz: False
      then have "\<not> 0 \<le> - m" using m0 by simp
      then show ?thesis using t False f an by (simp add: int_div_def)
    qed
  qed
qed


lemma int_div_nonneg:
  "0 \<le> a \<Longrightarrow> a < 2 ^ 53 \<Longrightarrow> 0 < b \<Longrightarrow> b < 2 ^ 53 \<Longrightarrow> int_div a b = Some (a div b)"
  using int_div_exact [of a b] by simp

section \<open>Properties of the duration model\<close>

lemma sorted_keys: "rev (sort (map fst NOTE_LENGTHS)) = [192, 168, 144, 96, 72, 48, 36, 24, 12, 6, 3]"
  by (simp add: NOTE_LENGTHS_def)

lemma findClosestNoteType_cases: "findClosestNoteType l =
  (if 192 \<le> l then Some ''whole'' else if 96 \<le> l then Some ''half'' else if 48 \<le> l then Some ''quarter''
   else if 24 \<le> l then Some ''eighth'' else if 12 \<le> l then Some ''16th'' else if 6 \<le> l then Some ''32nd''
   else Some ''64th'')"
  unfolding findClosestNoteType_def sorted_keys
  by (simp add: dict_get_def NOTE_LENGTHS_def)

lemma largest_key:
  assumes "3 \<le> l"
  shows "\<exists>n \<in> set (map fst NOTE_LENGTHS). n \<le> l \<and> (\<forall>k \<in> set (map fst NOTE_LENGTHS). k \<le> l \<longrightarrow> k \<le> n)
           \<and> findClosestNoteType l = dict_get NOTE_LENGTHS n"
proof -
  consider "192 \<le> l" | "168 \<le> l" "l < 192" | "144 \<le> l" "l < 168" | "96 \<le> l" "l < 144"
    | "72 \<le> l" "l < 96" | "48 \<le> l" "l < 72" | "36 \<le> l" "l < 48" | "24 \<le> l" "l < 36"
    | "12 \<le> l" "l < 24" | "6 \<le> l" "l < 12" | "3 \<le> l" "l < 6"
    using assms by linarith
  then show ?thesis
  proof cases
    case 1 then show ?thesis
      by (intro bexI[of _ 192]) (simp_all add: findClosestNoteType_cases dict_get_def NOTE_LENGTHS_def)
  next
    case 2 then show ?thesis
      by (intro bexI[of _ 168]) (simp_all add: findClosestNoteType_cases dict_get_def NOTE_LENGTHS_def)
  next
    case 3 then show ?thesis
      by (intro bexI[of _ 144]) (simp_all add: findClosestNoteType_cases dict_get_def NOTE_LENGTHS_def)
  next
    case 4 then show ?thesis
      by (intro bexI[of _ 96]) (simp_all add: findClosestNoteType_cases dict_get_def NOTE_LENGTHS_def)
  next
    case 5 then show ?thesis
      by (intro bexI[of _ 72]) (simp_all add: findClosestNoteType_cases dict_get_def NOTE_LENGTHS_def)
  next
    case 6 then show ?thesis
      by (intro bexI[of _ 48]) (simp_all add: findClosestNoteType_cases dict_get_def NOTE_LENGTHS_def)
  next
    case 7 then show ?thesis
      by (intro bexI[of _ 36]) (simp_all add: findClosestNoteType_cases dict_get_def NOTE_LENGTHS_def)
  next
    case 8 then show ?thesis
      by (intro bexI[of _ 24]) (simp_all add: findClosestNoteType_cases dict_get_def NOTE_LENGTHS_def)
  next
    case 9 then show ?thesis
      by (intro bexI[of _ 12]) (simp_all add: findClosestNoteType_cases dict_get_def NOTE_LENGTHS_def)
  next
    case 10 then show ?thesis
      by (intro bexI[of _ 6]) (simp_all add: findClosestNoteType_cases dict_get_def NOTE_LENGTHS_def)
  next
    case 11 then show ?thesis
      by (intro bexI[of _ 3]) (simp_all add: findClosestNoteType_cases dict_get_def NOTE_LENGTHS_def)
  qed
qed

text \<open>
  Claim C7. \<open>findClosestNoteType\<close> returns a type for every integer length (it never
  raises); on the eleven table lengths it returns the documented types; for a length of
  at least 3 it returns the entry of the largest table length not above it; below 3 it
  returns \<open>64th\<close>.
\<close>

theorem findClosestNoteType_spec:
  "(\<exists>t. findClosestNoteType l = Some t)
   \<and> map findClosestNoteType [192, 168, 144, 96, 72, 48, 36, 24, 12, 6, 3]
       = map Some [''whole'', ''half'', ''half'', ''half'', ''quarter'', ''quarter'', ''eighth'',
                   ''eighth'', ''16th'', ''32nd'', ''64th'']
   \<and> (3 \<le> l \<longrightarrow> (\<exists>n \<in> set (map fst NOTE_LENGTHS). n \<le> l
          \<and> (\<forall>k \<in> set (map fst NOTE_LENGTHS). k \<le> l \<longrightarrow> k \<le> n)
          \<and> findClosestNoteType l = dict_get NOTE_LENGTHS n))
   \<and> (l < 3 \<longrightarrow> findClosestNoteType l = Some ''64th'')"
proof (intro conjI impI)
  show "\<exists>t. findClosestNoteType l = Some t"
    by (simp add: findClosestNoteType_cases)
  show "map findClosestNoteType [192, 168, 144, 96, 72, 48, 36, 24, 12, 6, 3]
       = map Some [''whole'', ''half'', ''half'', ''half'', ''quarter'', ''quarter'', ''eighth'',
                   ''eighth'', ''16th'', ''32nd'', ''64th'']"
    by (simp add: findClosestNoteType_cases)
  show "findClosestNoteType l = Some ''64th''" if "l < 3"
    using that by (simp add: findClosestNoteType_cases)
  show "\<exists>n \<in> set (map fst NOTE_LENGTHS). n \<le> l
          \<and> (\<forall>k \<in> set (map fst NOTE_LENGTHS). k \<le> l \<longrightarrow> k \<le> n)
          \<and> findClosestNoteType l = dict_get NOTE_LENGTHS n" if "3 \<le> l"
    using that by (rule largest_key)
qed

theorem findClosestNoteType_spec_witness:
  "findClosestNoteType 100 = Some ''half'' \<and> findClosestNoteType 2 = Some ''64th''
   \<and> findClosestNoteType (- 7) = Some ''64th''"
  using findClosestNoteType_spec [of 100] findClosestNoteType_spec [of 2]
    findClosestNoteType_spec [of "- 7"]
  by (auto simp add: dict_get_def NOTE_LENGTHS_def)

section \<open>Properties of the rest decomposer\<close>

lemma getRests_exact:
  assumes g: "0 \<le> g" "g < 2 ^ 53"
  shows "getRests g = Some [(''64th'', (g mod 6) div 3), (''32nd'', (g mod 12) div 6),
      (''16th'', (g mod 24) div 12), (''eighth'', (g mod 48) div 24),
      (''quarter'', (g mod 192) div 48), (''whole'', g div 192)]"
proof -
  have small: "0 \<le> x \<Longrightarrow> x < 192 \<Longrightarrow> x < 2 ^ 53" for x :: int by simp
  have d1: "int_div g 192 = Some (g div 192)"
    using g by (simp add: int_div_nonneg)
  have r1: "g - g div 192 * 192 = g mod 192"
    by (simp add: minus_div_mult_eq_mod)
  have d2: "int_div (g mod 192) 48 = Some ((g mod 192) div 48)"
    by (rule int_div_nonneg) simp_all
  have r2: "g mod 192 - (g mod 192) div 48 * 48 = g mod 48"
    by (simp add: minus_div_mult_eq_mod mod_mod_cancel)
  have d3: "int_div (g mod 48) 24 = Some ((g mod 48) div 24)"
    by (rule int_div_nonneg) simp_all
  have r3: "g mod 48 - (g mod 48) div 24 * 24 = g mod 24"
    by (simp add: minus_div_mult_eq_mod mod_mod_cancel)
  have d4: "int_div (g mod 24) 12 = Some ((g mod 24) div 12)"
    by (rule int_div_nonneg) simp_all
  have r4: "g mod 24 - (g mod 24) div 12 * 12 = g mod 12"
    by (simp add: minus_div_mult_eq_mod mod_mod_cancel)
  have d5: "int_div (g mod 12) 6 = Some ((g mod 12) div 6)"
    by (rule int_div_nonneg) simp_all
  have r5: "g mod 12 - (g mod 12) div 6 * 6 = g mod 6"
    by (simp add: minus_div_mult_eq_mod mod_mod_cancel)
  have d6: "int_div (g mod 6) 3 = Some ((g mod 6) div 3)"
    by (rule int_div_nonneg) simp_all
  show ?thesis
    unfolding getRests_def LMMS_MEASURE_LENGTH_def Let_def
    by (simp add: d1 r1 d2 r2 d3 r3 d4 r4 d5 r5 d6)
qed

lemma rests_total:
  fixes g :: int
  shows "(g mod 6) div 3 * 3 + ((g mod 12) div 6 * 6 + ((g mod 24) div 12 * 12
      + ((g mod 48) div 24 * 24 + ((g mod 192) div 48 * 48 + (g div 192 * 192 + 0)))))
      = g - g mod 3"
proof -
  have a: "g div 192 * 192 = g - g mod 192" by (simp add: minus_mod_eq_div_mult)
  have b: "(g mod 192) div 48 * 48 = g mod 192 - g mod 48"
    using minus_mod_eq_div_mult [of "g mod 192" 48] by (simp add: mod_mod_cancel)
  have c: "(g mod 48) div 24 * 24 = g mod 48 - g mod 24"
    using minus_mod_eq_div_mult [of "g mod 48" 24] by (simp add: mod_mod_cancel)
  have d: "(g mod 24) div 12 * 12 = g mod 24 - g mod 12"
    using minus_mod_eq_div_mult [of "g mod 24" 12] by (simp add: mod_mod_cancel)
  have e: "(g mod 12) div 6 * 6 = g mod 12 - g mod 6"
    using minus_mod_eq_div_mult [of "g mod 12" 6] by (simp add: mod_mod_cancel)
  have f: "(g mod 6) div 3 * 3 = g mod 6 - g mod 3"
    using minus_mod_eq_div_mult [of "g mod 6" 3] by (simp add: mod_mod_cancel)
  show ?thesis unfolding a b c d e f by simp
qed

text \<open>
  Claim C5. For a gap of at least 0 and below \<open>2^53\<close> ticks, \<open>getRests\<close> returns a
  table, and its counts converted back to ticks sum to the gap minus a remainder \<open>r\<close> with
  \<open>0 \<le> r < 3\<close>.
\<close>

theorem getRests_ticks:
  assumes "0 \<le> gapTicks" "gapTicks < 2 ^ 53"
  shows "\<exists>rests r. getRests gapTicks = Some rests \<and> 0 \<le> r \<and> r < 3
           \<and> restsTicks rests = Some (gapTicks - r)"
proof -
  let ?rests = "[(''64th'', (gapTicks mod 6) div 3), (''32nd'', (gapTicks mod 12) div 6),
      (''16th'', (gapTicks mod 24) div 12), (''eighth'', (gapTicks mod 48) div 24),
      (''quarter'', (gapTicks mod 192) div 48), (''whole'', gapTicks div 192)]"
  have g: "getRests gapTicks = Some ?rests" using assms by (rule getRests_exact)
  have "restsTicks ?rests = Some ((gapTicks mod 6) div 3 * 3 + ((gapTicks mod 12) div 6 * 6
      + ((gapTicks mod 24) div 12 * 12 + ((gapTicks mod 48) div 24 * 24
      + ((gapTicks mod 192) div 48 * 48 + (gapTicks div 192 * 192 + 0))))))"
    by (simp add: dict_get_def NOTE_TYPE_def)
  then have s: "restsTicks ?rests = Some (gapTicks - gapTicks mod 3)"
    unfolding rests_total .
  have "0 \<le> gapTicks mod 3" "gapTicks mod 3 < 3" by simp_all
  then show ?thesis using g s by blast
qed

theorem getRests_ticks_witness:
  "(0::int) \<le> 200 \<and> (200::int) < 2 ^ 53
   \<and> getRests 200 = Some [(''64th'', 0), (''32nd'', 1), (''16th'', 0), (''eighth'', 0),
        (''quarter'', 0), (''whole'', 1)]
   \<and> restsTicks [(''64th'', 0), (''32nd'', 1), (''16th'', 0), (''eighth'', 0),
        (''quarter'', 0), (''whole'', 1)] = Some (200 - 2)"
proof -
  have v: "getRests 200 = Some [(''64th'', 0), (''32nd'', 1), (''16th'', 0), (''eighth'', 0),
        (''quarter'', 0), (''whole'', 1)]"
    by code_simp
  have h: "(0::int) \<le> 200" "(200::int) < 2 ^ 53" by simp_all
  show ?thesis
    using getRests_ticks [OF h] v by (simp add: dict_get_def NOTE_TYPE_def)
qed

text \<open>
  Without the upper bound the sum can exceed the gap: at \<open>192 * 2^46 + 191\<close> the double
  nearest to the quotient by 192 is \<open>2^46 + 1\<close>, so the whole count is one too large, every
  smaller count is 0, and the sum is the gap plus 1.
\<close>

theorem getRests_ticks_counterexample:
  "(0::int) \<le> 192 * 2 ^ 46 + 191
   \<and> getRests (192 * 2 ^ 46 + 191) = Some [(''64th'', 0), (''32nd'', 0), (''16th'', 0),
        (''eighth'', 0), (''quarter'', 0), (''whole'', 2 ^ 46 + 1)]
   \<and> restsTicks [(''64th'', 0), (''32nd'', 0), (''16th'', 0),
        (''eighth'', 0), (''quarter'', 0), (''whole'', 2 ^ 46 + 1)]
      = Some (192 * 2 ^ 46 + 191 - (- 1))"
  by code_simp

lemma addRest_children:
  "children (addRest m t) = children m @ [RestEl
     (if t = ''32nd'' then ''1'' else if t = ''16th'' then ''2'' else if t = ''eighth'' then ''4''
      else if t = ''quarter'' then ''8'' else if t = ''half'' then ''16'' else '''') t]"
  by (simp add: addRest_def)

lemma addRest_number: "number (addRest m t) = number m"
  by (simp add: addRest_def)

lemma foldl_addRest_number: "number (foldl addRest m (replicate n t)) = number m"
  by (induction n arbitrary: m) (simp_all add: addRest_number)

lemma foldl_addRest_children:
  "\<exists>new. children (foldl addRest m (replicate n t)) = children m @ new
     \<and> map rest_type new = replicate n t"
proof (induction n arbitrary: m)
  case 0
  then show ?case by simp
next
  case (Suc n)
  obtain new where new: "children (foldl addRest (addRest m t) (replicate n t))
      = children (addRest m t) @ new" "map rest_type new = replicate n t"
    using Suc.IH by blast
  obtain r where r: "children (addRest m t) = children m @ [r]" "rest_type r = t"
    by (simp add: addRest_def)
  have "children (foldl addRest m (replicate (Suc n) t)) = children m @ (r # new)"
    using new r by simp
  moreover have "map rest_type (r # new) = replicate (Suc n) t"
    using new r by simp
  ultimately show ?case by blast
qed

lemma addRests_children:
  "\<exists>new. children (addRests m rs) = children m @ new
     \<and> map rest_type new = concat (map (\<lambda>(t, c). replicate (nat c) t) rs)"
proof (induction m rs rule: addRests.induct)
  case (1 m)
  then show ?case by simp
next
  case (2 m rest c others)
  obtain a where a: "children (foldl addRest m (replicate (nat c) rest)) = children m @ a"
      "map rest_type a = replicate (nat c) rest"
    using foldl_addRest_children by blast
  obtain b where b: "children (addRests (foldl addRest m (replicate (nat c) rest)) others)
      = children (foldl addRest m (replicate (nat c) rest)) @ b"
      "map rest_type b = concat (map (\<lambda>(t, c). replicate (nat c) t) others)"
    using "2.IH" by blast
  have "children (addRests m ((rest, c) # others)) = children m @ (a @ b)"
    using a b by simp
  moreover have "map rest_type (a @ b)
      = concat (map (\<lambda>(t, c). replicate (nat c) t) ((rest, c) # others))"
    using a b by simp
  ultimately show ?case by blast
qed

text \<open>
  Claim C6. Whenever \<open>getRests\<close> returns, its table has exactly the keys 64th, 32nd, 16th,
  eighth, quarter and whole, in this order, so no half rest; applying it appends the rests
  smallest first: all 64th rests, then the 32nd, 16th, eighth, quarter and whole rests. For
  a gap of at least 0 and below \<open>2^53\<close> it returns, the whole count is the quotient of the gap
  by 192, what remains of the measure is expressed in quarters (the quarter count is the
  quotient of the gap modulo 192 by 48), and each smaller unit counts what remains after
  the larger ones.
\<close>

theorem getRests_order:
  "(\<forall>rests. getRests gapTicks = Some rests \<longrightarrow>
      (\<exists>n64 n32 n16 n8 n4 n1 new.
         rests = [(''64th'', n64), (''32nd'', n32), (''16th'', n16), (''eighth'', n8),
            (''quarter'', n4), (''whole'', n1)]
         \<and> ''half'' \<notin> set (map fst rests)
         \<and> children (addRests m rests) = children m @ new
         \<and> map rest_type new = replicate (nat n64) ''64th'' @ replicate (nat n32) ''32nd''
              @ replicate (nat n16) ''16th'' @ replicate (nat n8) ''eighth''
              @ replicate (nat n4) ''quarter'' @ replicate (nat n1) ''whole''))
   \<and> (0 \<le> gapTicks \<and> gapTicks < 2 ^ 53 \<longrightarrow>
        getRests gapTicks = Some [(''64th'', (gapTicks mod 6) div 3),
          (''32nd'', (gapTicks mod 12) div 6), (''16th'', (gapTicks mod 24) div 12),
          (''eighth'', (gapTicks mod 48) div 24), (''quarter'', (gapTicks mod 192) div 48),
          (''whole'', gapTicks div 192)])"
proof (intro conjI allI impI)
  fix rests
  assume r: "getRests gapTicks = Some rests"
  obtain n64 n32 n16 n8 n4 n1 where g: "rests = [(''64th'', n64), (''32nd'', n32),
      (''16th'', n16), (''eighth'', n8), (''quarter'', n4), (''whole'', n1)]"
    using r by (auto simp add: getRests_def Let_def bind_eq_Some_conv)
  obtain new where new: "children (addRests m rests) = children m @ new"
      "map rest_type new = concat (map (\<lambda>(t, c). replicate (nat c) t) rests)"
    using addRests_children by blast
  have "''half'' \<notin> set (map fst rests)"
    by (simp add: g)
  moreover have "map rest_type new = replicate (nat n64) ''64th'' @ replicate (nat n32) ''32nd''
          @ replicate (nat n16) ''16th'' @ replicate (nat n8) ''eighth''
          @ replicate (nat n4) ''quarter'' @ replicate (nat n1) ''whole''"
    using new(2) by (simp add: g)
  ultimately show "\<exists>n64 n32 n16 n8 n4 n1 new.
         rests = [(''64th'', n64), (''32nd'', n32), (''16th'', n16), (''eighth'', n8),
            (''quarter'', n4), (''whole'', n1)]
         \<and> ''half'' \<notin> set (map fst rests)
         \<and> children (addRests m rests) = children m @ new
         \<and> map rest_type new = replicate (nat n64) ''64th'' @ replicate (nat n32) ''32nd''
              @ replicate (nat n16) ''16th'' @ replicate (nat n8) ''eighth''
              @ replicate (nat n4) ''quarter'' @ replicate (nat n1) ''whole''"
    using g new(1) by blast
next
  assume "0 \<le> gapTicks \<and> gapTicks < 2 ^ 53"
  then show "getRests gapTicks = Some [(''64th'', (gapTicks mod 6) div 3),
          (''32nd'', (gapTicks mod 12) div 6), (''16th'', (gapTicks mod 24) div 12),
          (''eighth'', (gapTicks mod 48) div 24), (''quarter'', (gapTicks mod 192) div 48),
          (''whole'', gapTicks div 192)]"
    by (simp add: getRests_exact)
qed

theorem getRests_order_witness:
  "(0::int) \<le> 381 \<and> (381::int) < 2 ^ 53
   \<and> getRests 381 = Some [(''64th'', 1), (''32nd'', 1), (''16th'', 1), (''eighth'', 1),
        (''quarter'', 3), (''whole'', 1)]
   \<and> map rest_type (children (addRests \<lparr>number = ''1'', children = []\<rparr>
        [(''64th'', 1), (''32nd'', 1), (''16th'', 1), (''eighth'', 1), (''quarter'', 3),
         (''whole'', 1)]))
      = [''64th'', ''32nd'', ''16th'', ''eighth'', ''quarter'', ''quarter'', ''quarter'', ''whole'']"
proof -
  have v: "getRests 381 = Some [(''64th'', 1), (''32nd'', 1), (''16th'', 1), (''eighth'', 1),
        (''quarter'', 3), (''whole'', 1)]"
    using getRests_order [of 381 "\<lparr>number = ''1'', children = []\<rparr>"] by simp
  show ?thesis
    using getRests_order [of 381 "\<lparr>number = ''1'', children = []\<rparr>"] v
    by (simp add: addRest_def numeral_eq_Suc)
qed

text \<open>
  Without the upper bound the remainder of the measure is not expressed in quarters: at
  \<open>192 * 2^47 + 189\<close> the gap modulo 192 is 189, three quarters and more, but the double
  nearest to the quotient by 192 is \<open>2^47 + 1\<close>, so the whole count is one too large, the
  quarter count is 0 and the 64th count is \<open>- 1\<close>.
\<close>

theorem getRests_order_counterexample:
  "(0::int) \<le> 192 * 2 ^ 47 + 189
   \<and> ((192 * 2 ^ 47 + 189) mod 192) div 48 = (3::int)
   \<and> getRests (192 * 2 ^ 47 + 189) = Some [(''64th'', - 1), (''32nd'', 0), (''16th'', 0),
        (''eighth'', 0), (''quarter'', 0), (''whole'', 2 ^ 47 + 1)]"
  by code_simp

text \<open>
  Claim C10. \<open>addRest\<close> writes a duration text only for the types 32nd (1), 16th (2),
  eighth (4), quarter (8) and half (16). For every other type the duration text stays
  empty, and this includes 64th and whole, which \<open>getRests\<close> yields with nonzero
  counts (a gap of 195 ticks gives one of each).
\<close>

theorem addRest_duration:
  "children (addRest m ''32nd'') = children m @ [RestEl ''1'' ''32nd'']
   \<and> children (addRest m ''16th'') = children m @ [RestEl ''2'' ''16th'']
   \<and> children (addRest m ''eighth'') = children m @ [RestEl ''4'' ''eighth'']
   \<and> children (addRest m ''quarter'') = children m @ [RestEl ''8'' ''quarter'']
   \<and> children (addRest m ''half'') = children m @ [RestEl ''16'' ''half'']
   \<and> (t \<notin> {''32nd'', ''16th'', ''eighth'', ''quarter'', ''half''}
        \<longrightarrow> children (addRest m t) = children m @ [RestEl '''' t])
   \<and> children (addRest m ''64th'') = children m @ [RestEl '''' ''64th'']
   \<and> children (addRest m ''whole'') = children m @ [RestEl '''' ''whole'']
   \<and> getRests 195 = Some [(''64th'', 1), (''32nd'', 0), (''16th'', 0), (''eighth'', 0),
        (''quarter'', 0), (''whole'', 1)]
   \<and> map_option (\<lambda>rests. children (addRests m rests)) (getRests 195)
        = Some (children m @ [RestEl '''' ''64th'', RestEl '''' ''whole''])"
proof -
  have v: "getRests 195 = Some [(''64th'', 1), (''32nd'', 0), (''16th'', 0), (''eighth'', 0),
        (''quarter'', 0), (''whole'', 1)]"
    by code_simp
  show ?thesis
    by (simp add: addRest_def v)
qed

theorem addRest_duration_witness:
  "''breve'' \<notin> {''32nd'', ''16th'', ''eighth'', ''quarter'', ''half''}
   \<and> children (addRest \<lparr>number = ''1'', children = []\<rparr> ''breve'') = [RestEl '''' ''breve'']"
  using addRest_duration [of "\<lparr>number = ''1'', children = []\<rparr>" "''breve''"] by simp

section \<open>Properties of the length table\<close>

lemma lengthTableStep_other: "q \<noteq> pos (fst n) \<Longrightarrow> lengthTableStep T n f q = T q"
  by (auto simp: lengthTableStep_def Let_def split: option.splits list.splits)

lemma lengthTableStep_at:
  "\<exists>l. lengthTableStep T n f (pos (fst n)) = Some l \<and> l \<le> len (fst n)
     \<and> (\<forall>s. T (pos (fst n)) = Some s \<longrightarrow> l \<le> s)
     \<and> (T (pos (fst n)) = None \<longrightarrow> pos (fst n) + l \<le> snd n * LMMS_MEASURE_LENGTH)"
  by (auto simp: lengthTableStep_def Let_def LMMS_MEASURE_LENGTH_def split: option.splits list.splits)

lemma lengthTableStep_next:
  "pos (fst y) \<noteq> pos (fst n)
     \<Longrightarrow> \<exists>l. lengthTableStep T n (y # ys) (pos (fst n)) = Some l \<and> pos (fst n) + l \<le> pos (fst y)"
  by (auto simp: lengthTableStep_def Let_def split: option.splits)

lemma lengthTableStep_shrinks:
  assumes "T p = Some s"
  shows "\<exists>l. lengthTableStep T n f p = Some l \<and> l \<le> s"
proof (cases "p = pos (fst n)")
  case True
  then show ?thesis using lengthTableStep_at [of T n f] assms by auto
next
  case False
  then show ?thesis using assms by (simp add: lengthTableStep_other)
qed

lemma lengthTableLoop_shrinks:
  "T p = Some s \<Longrightarrow> \<exists>l. lengthTableLoop T ns p = Some l \<and> l \<le> s"
proof (induction ns arbitrary: T s)
  case Nil
  then show ?case by simp
next
  case (Cons n ns)
  obtain l1 where l1: "lengthTableStep T n ns p = Some l1" "l1 \<le> s"
    using lengthTableStep_shrinks [of T p s n ns] Cons.prems by blast
  obtain l where "lengthTableLoop (lengthTableStep T n ns) ns p = Some l" "l \<le> l1"
    using Cons.IH [of "lengthTableStep T n ns" l1] l1(1) by blast
  then show ?case using l1 by auto
qed

lemma lengthTableLoop_absent:
  "T p = None \<Longrightarrow> p \<notin> (\<lambda>n. pos (fst n)) ` set ns \<Longrightarrow> lengthTableLoop T ns p = None"
  by (induction ns arbitrary: T) (auto simp: lengthTableStep_other)

lemma lengthTableLoop_dom:
  "dom (lengthTableLoop T ns) = dom T \<union> (\<lambda>n. pos (fst n)) ` set ns"
proof (induction ns arbitrary: T)
  case Nil
  then show ?case by simp
next
  case (Cons n ns)
  have "dom (lengthTableStep T n ns) = insert (pos (fst n)) (dom T)"
  proof (rule set_eqI)
    fix q
    show "q \<in> dom (lengthTableStep T n ns) \<longleftrightarrow> q \<in> insert (pos (fst n)) (dom T)"
    proof (cases "q = pos (fst n)")
      case True
      then show ?thesis using lengthTableStep_at [of T n ns] by auto
    next
      case False
      then show ?thesis by (simp add: lengthTableStep_other dom_def)
    qed
  qed
  then show ?case using Cons.IH [of "lengthTableStep T n ns"] by auto
qed

lemma lengthTableLoop_le_len:
  "lengthTableLoop T ns p = Some l \<Longrightarrow> n \<in> set ns \<Longrightarrow> pos (fst n) = p \<Longrightarrow> l \<le> len (fst n)"
proof (induction ns arbitrary: T)
  case Nil
  then show ?case by simp
next
  case (Cons a ns)
  show ?case
  proof (cases "n = a")
    case True
    obtain l1 where l1: "lengthTableStep T a ns p = Some l1" "l1 \<le> len (fst a)"
      using lengthTableStep_at [of T a ns] Cons.prems(3) True by auto
    obtain l2 where "lengthTableLoop (lengthTableStep T a ns) ns p = Some l2" "l2 \<le> l1"
      using lengthTableLoop_shrinks [of "lengthTableStep T a ns" p l1 ns] l1(1) by blast
    then show ?thesis using Cons.prems(1) l1 True by simp
  next
    case False
    then show ?thesis using Cons by auto
  qed
qed

lemma lengthTableLoop_boundary:
  "T p = None \<Longrightarrow> firstMeasureAt ns p = Some m \<Longrightarrow> lengthTableLoop T ns p = Some l
     \<Longrightarrow> p + l \<le> m * LMMS_MEASURE_LENGTH"
proof (induction ns arbitrary: T)
  case Nil
  then show ?case by simp
next
  case (Cons a ns)
  show ?case
  proof (cases "pos (fst a) = p")
    case True
    then have m: "snd a = m" using Cons.prems(2) by simp
    obtain l1 where l1: "lengthTableStep T a ns p = Some l1"
        "p + l1 \<le> snd a * LMMS_MEASURE_LENGTH"
      using lengthTableStep_at [of T a ns] Cons.prems(1) True by auto
    obtain l2 where "lengthTableLoop (lengthTableStep T a ns) ns p = Some l2" "l2 \<le> l1"
      using lengthTableLoop_shrinks [of "lengthTableStep T a ns" p l1 ns] l1(1) by blast
    then show ?thesis using Cons.prems(3) l1 m by simp
  next
    case False
    then have "lengthTableStep T a ns p = None"
      using Cons.prems(1) by (simp add: lengthTableStep_other)
    moreover have "firstMeasureAt ns p = Some m"
      using Cons.prems(2) False by simp
    ultimately show ?thesis using Cons.IH Cons.prems(3) by simp
  qed
qed

lemma lengthTableLoop_adjacent:
  "lengthTableLoop T (before @ x # y # after) (pos (fst x)) = Some l
     \<Longrightarrow> pos (fst y) \<noteq> pos (fst x) \<Longrightarrow> pos (fst x) + l \<le> pos (fst y)"
proof (induction before arbitrary: T)
  case Nil
  obtain l1 where l1: "lengthTableStep T x (y # after) (pos (fst x)) = Some l1"
      "pos (fst x) + l1 \<le> pos (fst y)"
    using lengthTableStep_next [of y x T after] Nil.prems(2) by auto
  obtain l2 where "lengthTableLoop (lengthTableStep T x (y # after)) (y # after) (pos (fst x)) = Some l2"
      "l2 \<le> l1"
    using lengthTableLoop_shrinks [of "lengthTableStep T x (y # after)" "pos (fst x)" l1 "y # after"]
      l1(1) by blast
  then show ?case using Nil.prems(1) l1 by simp
next
  case (Cons a before)
  then show ?case by simp
qed

lemma sorted_adjacent:
  fixes ps :: "int list"
  shows "sorted ps \<Longrightarrow> p1 \<in> set ps \<Longrightarrow> p2 \<in> set ps \<Longrightarrow> p1 < p2
     \<Longrightarrow> \<forall>q \<in> set ps. \<not> (p1 < q \<and> q < p2)
     \<Longrightarrow> \<exists>before after. ps = before @ p1 # p2 # after"
proof (induction ps)
  case Nil
  then show ?case by simp
next
  case (Cons a ps)
  have a_le: "\<forall>q \<in> set ps. a \<le> q" using Cons.prems(1) by simp
  show ?case
  proof (cases ps)
    case Nil
    then show ?thesis using Cons.prems by auto
  next
    case (Cons b rest)
    show ?thesis
    proof (cases "a = p1 \<and> b = p2")
      case True
      then have "a # ps = [] @ p1 # p2 # rest" using Cons by simp
      then show ?thesis by blast
    next
      case False
      have p2in: "p2 \<in> set ps"
        using Cons.prems(2,3,4) a_le by force
      have p1in: "p1 \<in> set ps"
      proof (cases "p1 = a")
        case True
        have "b \<in> set (a # ps)" using Cons by simp
        then have nb: "\<not> (p1 < b \<and> b < p2)" using Cons.prems(5) by blast
        have "a \<le> b" using a_le Cons by simp
        moreover have "b \<le> p2" using Cons.prems(1) p2in Cons by auto
        ultimately have "b = p1 \<or> b = p2" using nb True by auto
        then show ?thesis using False True Cons by auto
      next
        case False
        then show ?thesis using Cons.prems(2) by simp
      qed
      have "\<exists>before after. ps = before @ p1 # p2 # after"
        using Cons.IH Cons.prems p1in p2in by simp
      then obtain before after where "ps = before @ p1 # p2 # after" by blast
      then have "a # ps = (a # before) @ p1 # p2 # after" by simp
      then show ?thesis by blast
    qed
  qed
qed

lemma firstMeasureAt_present:
  "p \<in> (\<lambda>n. pos (fst n)) ` set ns \<Longrightarrow> \<exists>m. firstMeasureAt ns p = Some m"
  by (induction ns) auto

lemma firstMeasureAt_least:
  "sorted (map snd ns) \<Longrightarrow> firstMeasureAt ns p = Some m \<Longrightarrow> n \<in> set ns \<Longrightarrow> pos (fst n) = p
     \<Longrightarrow> m \<le> snd n"
  by (induction ns) (auto split: if_splits)

text \<open>
  Claim C1. For a note list sorted by position, the table of \<open>createLengthTable\<close> records
  exactly the positions of the notes, and for every recorded position \<open>p\<close> with length
  \<open>l\<close>: \<open>p + l\<close> does not pass the end of the measure of the note at \<open>p\<close> (the first note
  at \<open>p\<close>, whose tag the builder reads; and every note at \<open>p\<close> when the tags do not
  decrease along the list); \<open>p + l\<close> does not pass the next recorded position; and \<open>l\<close> does
  not exceed the raw length of any note at \<open>p\<close>.
\<close>

theorem createLengthTable_invariant:
  assumes "sorted (map (\<lambda>n. pos (fst n)) notes)"
  shows "dom (createLengthTable notes) = (\<lambda>n. pos (fst n)) ` set notes
    \<and> (\<forall>p l. createLengthTable notes p = Some l \<longrightarrow>
          (\<exists>m. firstMeasureAt notes p = Some m \<and> p + l \<le> m * LMMS_MEASURE_LENGTH)
        \<and> (sorted (map snd notes) \<longrightarrow>
             (\<forall>n \<in> set notes. pos (fst n) = p \<longrightarrow> p + l \<le> snd n * LMMS_MEASURE_LENGTH))
        \<and> (\<forall>p2 \<in> dom (createLengthTable notes).
             p < p2 \<and> (\<forall>q \<in> dom (createLengthTable notes). \<not> (p < q \<and> q < p2))
               \<longrightarrow> p + l \<le> p2)
        \<and> (\<forall>n \<in> set notes. pos (fst n) = p \<longrightarrow> l \<le> len (fst n)))"
proof (intro conjI allI impI)
  show d: "dom (createLengthTable notes) = (\<lambda>n. pos (fst n)) ` set notes"
    by (simp add: createLengthTable_def lengthTableLoop_dom)
  fix p l
  assume pl: "createLengthTable notes p = Some l"
  then have pin: "p \<in> (\<lambda>n. pos (fst n)) ` set notes" using d by blast
  then obtain m where m: "firstMeasureAt notes p = Some m"
    using firstMeasureAt_present by blast
  have b: "p + l \<le> m * LMMS_MEASURE_LENGTH"
    using lengthTableLoop_boundary [of Map.empty p "notes" m l] m pl
    by (simp add: createLengthTable_def)
  show "\<exists>m. firstMeasureAt notes p = Some m \<and> p + l \<le> m * LMMS_MEASURE_LENGTH"
    using m b by blast
  show "\<forall>n \<in> set notes. pos (fst n) = p \<longrightarrow> l \<le> len (fst n)"
    using pl lengthTableLoop_le_len by (auto simp: createLengthTable_def)
  show "\<forall>n \<in> set notes. pos (fst n) = p \<longrightarrow> p + l \<le> snd n * LMMS_MEASURE_LENGTH"
    if s: "sorted (map snd notes)"
  proof (intro ballI impI)
    fix n assume n: "n \<in> set notes" "pos (fst n) = p"
    have "m \<le> snd n" using firstMeasureAt_least [OF s m n] .
    then have "m * LMMS_MEASURE_LENGTH \<le> snd n * LMMS_MEASURE_LENGTH"
      by (simp add: LMMS_MEASURE_LENGTH_def)
    then show "p + l \<le> snd n * LMMS_MEASURE_LENGTH" using b by linarith
  qed
  show "\<forall>p2 \<in> dom (createLengthTable notes).
      p < p2 \<and> (\<forall>q \<in> dom (createLengthTable notes). \<not> (p < q \<and> q < p2)) \<longrightarrow> p + l \<le> p2"
  proof (intro ballI impI)
    fix p2
    assume p2: "p2 \<in> dom (createLengthTable notes)"
      and c: "p < p2 \<and> (\<forall>q \<in> dom (createLengthTable notes). \<not> (p < q \<and> q < p2))"
    let ?ps = "map (\<lambda>n. pos (fst n)) notes"
    have "\<exists>before after. ?ps = before @ p # p2 # after"
      using sorted_adjacent [of ?ps p p2] assms pin p2 c d by auto
    then obtain before after where "?ps = before @ p # p2 # after" by blast
    then obtain nb x y na where split: "notes = nb @ x # y # na" "pos (fst x) = p" "pos (fst y) = p2"
      by (auto simp: map_eq_append_conv map_eq_Cons_conv)
    show "p + l \<le> p2"
      using lengthTableLoop_adjacent [of Map.empty nb x y na l] pl split c
      by (simp add: createLengthTable_def)
  qed
qed

theorem createLengthTable_invariant_witness:
  "sorted (map (\<lambda>n. pos (fst n))
      [(\<lparr>key = 79, pos = 372, len = 48\<rparr>, 2), (\<lparr>key = 67, pos = 372, len = 48\<rparr>, 2),
       (\<lparr>key = 77, pos = 384, len = 48\<rparr>, 3)])
   \<and> createLengthTable
      [(\<lparr>key = 79, pos = 372, len = 48\<rparr>, 2), (\<lparr>key = 67, pos = 372, len = 48\<rparr>, 2),
       (\<lparr>key = 77, pos = 384, len = 48\<rparr>, 3)] 372 = Some 12
   \<and> createLengthTable
      [(\<lparr>key = 79, pos = 372, len = 48\<rparr>, 2), (\<lparr>key = 67, pos = 372, len = 48\<rparr>, 2),
       (\<lparr>key = 77, pos = 384, len = 48\<rparr>, 3)] 384 = Some 48
   \<and> (372::int) + 12 \<le> 2 * LMMS_MEASURE_LENGTH \<and> (372::int) + 12 \<le> 384
   \<and> (384::int) + 48 \<le> 3 * LMMS_MEASURE_LENGTH"
proof -
  let ?ns = "[(\<lparr>key = 79, pos = 372, len = 48\<rparr>, 2::int), (\<lparr>key = 67, pos = 372, len = 48\<rparr>, 2),
       (\<lparr>key = 77, pos = 384, len = 48\<rparr>, 3)]"
  have s: "sorted (map (\<lambda>n. pos (fst n)) ?ns)" by simp
  have a: "createLengthTable ?ns 372 = Some 12"
    by (simp add: createLengthTable_def lengthTableStep_def LMMS_MEASURE_LENGTH_def)
  have b: "createLengthTable ?ns 384 = Some 48"
    by (simp add: createLengthTable_def lengthTableStep_def LMMS_MEASURE_LENGTH_def)
  have t: "sorted (map snd ?ns)" by simp
  show ?thesis
    using createLengthTable_invariant [OF s] s t a b
    by (simp add: LMMS_MEASURE_LENGTH_def)
qed

section \<open>Properties of the measure allocation\<close>



lemma floor_unique:
  fixes p q :: int
  assumes "q * 192 \<le> p" "p < q * 192 + 192"
  shows "p div 192 = q"
proof (rule int_div_pos_eq [of p 192 q "p - q * 192"])
  show "p = 192 * q + (p - q * 192)" by simp
  show "0 \<le> p - q * 192" using assms by simp
  show "p - q * 192 < 192" using assms by simp
qed





lemma chunkNotes_Cons_Some:
  "chunkNotes cp m (n # ns) = Some out \<longleftrightarrow>
     (\<exists>m' others. measureNumAfter m (cp + pos n) = Some m' \<and> chunkNotes cp m' ns = Some others
        \<and> out = (n\<lparr>pos := cp + pos n\<rparr>, m') # others)"
  by (auto simp add: Let_def bind_eq_Some_conv)


lemma chunkNotes_pos:
  "chunkNotes cp m ns = Some out \<Longrightarrow> (n', t) \<in> set out
     \<Longrightarrow> \<exists>n \<in> set ns. pos n' = cp + pos n"
proof (induction ns arbitrary: m out)
  case Nil
  then show ?case by simp
next
  case (Cons a ns)
  obtain m' others where s: "chunkNotes cp m' ns = Some others"
      "out = (a\<lparr>pos := cp + pos a\<rparr>, m') # others"
    using Cons.prems(1) unfolding chunkNotes_Cons_Some by blast
  show ?case
  proof (cases "(n', t) = (a\<lparr>pos := cp + pos a\<rparr>, m')")
    case True
    then show ?thesis by auto
  next
    case False
    then have "(n', t) \<in> set others" using Cons.prems(2) s(2) by auto
    then show ?thesis using Cons.IH [OF s(1)] by auto
  qed
qed













section \<open>The conversion of small inputs\<close>

lemma NOTES_total:
  "\<exists>c sharp. dict_get NOTES (k mod 12) = Some (c # (if sharp then ''#'' else []))"
proof -
  have u: "[0..11] = [0, 1, 2, 3, 4, 5, 6, 7, 8, 9, 10, 11::int]"
    by code_simp
  have "k mod 12 \<in> set [0..11]" by simp
  then have "k mod 12 \<in> {0, 1, 2, 3, 4, 5, 6, 7, 8, 9, 10, 11}"
    unfolding u by simp
  then show ?thesis
    by (auto simp: dict_get_def NOTES_def intro: exI [of _ True] exI [of _ False])
qed

lemma int_div_values:
  "int_div 0 192 = Some 0" "int_div 48 6 = Some 8"
  by code_simp+

lemma getRests_values:
  "getRests 0 = Some [(''64th'', 0), (''32nd'', 0), (''16th'', 0), (''eighth'', 0),
     (''quarter'', 0), (''whole'', 0)]"
  "getRests 144 = Some [(''64th'', 0), (''32nd'', 0), (''16th'', 0), (''eighth'', 0),
     (''quarter'', 3), (''whole'', 0)]"
  by code_simp+

lemma single_notes:
  "patternNotes [\<lparr>pattern_pos = 0, pattern_notes = [\<lparr>key = k, pos = 0, len = 48\<rparr>]\<rparr>]
     = Some [(\<lparr>key = k, pos = 0, len = 48\<rparr>, 1)]"
  by (simp add: patternNotes_def flattenChunk_def measureNumAfter_def int_div_values
      LMMS_MEASURE_LENGTH_def)

lemma single_table:
  "createLengthTable [(\<lparr>key = k, pos = 0, len = 48\<rparr>, 1)] = [0 \<mapsto> 48]"
  by (simp add: createLengthTable_def lengthTableStep_def LMMS_MEASURE_LENGTH_def)

lemma single_noteTypeLength: "noteTypeLength [0 \<mapsto> 48] 0 = Some 48"
  by (simp add: noteTypeLength_def findClosestNoteType_cases dict_get_def NOTE_TYPE_def)

lemma str_values: "str 1 = ''1''" "str 8 = ''8''"
  by (simp_all add: str_def str_nat.simps)

lemma pad_144:
  "addRests m [(''64th'', 0), (''32nd'', 0), (''16th'', 0), (''eighth'', 0),
     (''quarter'', 3), (''whole'', 0)]
     = m\<lparr>children := children m @ [RestEl ''8'' ''quarter'', RestEl ''8'' ''quarter'', RestEl ''8'' ''quarter'']\<rparr>"
  by (simp add: addRest_def numeral_3_eq_3)

lemma pad_0:
  "addRests m [(''64th'', 0), (''32nd'', 0), (''16th'', 0), (''eighth'', 0),
     (''quarter'', 0), (''whole'', 0)] = m"
  by simp

lemma single_layout:
  assumes "dict_get NOTES (k mod 12) = Some (c # (if sharp then ''#'' else []))"
  shows "layoutPart nm [(\<lparr>key = k, pos = 0, len = 48\<rparr>, 1)] =
     map_option (\<lambda>octave. ([\<lparr>number = ''1'', children =
         [AttributesEl ''8'' ''0'' ''4'' ''4''
            (if nm \<in> BASS_INSTRUMENTS then ''F'' else ''G'') (if nm \<in> BASS_INSTRUMENTS then ''4'' else ''2''),
          NoteEl False [c] sharp (str octave) ''8'' ''quarter'',
          RestEl ''8'' ''quarter'', RestEl ''8'' ''quarter'', RestEl ''8'' ''quarter'']\<rparr>], 1))
       (int_div k 12)"
proof (cases "int_div k 12")
  case None
  then show ?thesis
    using assms
    by (simp add: layoutPart_def single_table firstMeasures_def createFirstMeasure_def createMeasure_def
      dict_get_def CLEF_TYPE_def NUM_DIVISIONS_def layoutStep_def placeNote_def addNote_def newNote_def
      LMMS_MEASURE_LENGTH_def getRests_values pad_0)
next
  case (Some octave)
  then show ?thesis
    using assms
    by (simp add: layoutPart_def single_table firstMeasures_def createFirstMeasure_def createMeasure_def
      dict_get_def CLEF_TYPE_def NUM_DIVISIONS_def layoutStep_def placeNote_def addNote_def newNote_def
      single_noteTypeLength padMeasure_def LMMS_MEASURE_LENGTH_def getRests_values pad_144 pad_0
      findClosestNoteType_cases str_values int_div_values addRest_def numeral_3_eq_3)
qed

lemma single_durations:
  "sum_list (map elementDuration
      [AttributesEl ''8'' ''0'' ''4'' ''4'' sign line, NoteEl False st sharp oct ''8'' ''quarter'',
       RestEl ''8'' ''quarter'', RestEl ''8'' ''quarter'', RestEl ''8'' ''quarter'']) = 32"
  by (simp add: durationValue_def)

text \<open>
  Claim C8. For a single recognised instrument with a single note at position 0 of length
  48 in a chunk at 0, the conversion returns a document with exactly one part (and its one
  declaration), and this part has exactly one measure: the attributes, one quarter note of
  duration 8 at the pitch of the key (step and sharp from \<open>NOTES\<close>, octave \<open>int(key / 12)\<close>),
  then three quarter rests of duration 8; the durations of the measure total 32. The
  conversion returns whenever the division for the octave does, and for a key between
  \<open>- 2^53\<close> and \<open>2^53\<close> it does, with the quotient of the key by 12 rounded towards 0.
\<close>

theorem convert_single_note:
  assumes "nm \<in> INSTRUMENTS"
  shows "\<exists>c sharp sign line.
     dict_get NOTES (k mod 12) = Some (c # (if sharp then ''#'' else []))
   \<and> dict_get CLEF_TYPE (if nm \<in> BASS_INSTRUMENTS then ''bass'' else ''treble'') = Some (sign, line)
   \<and> convert [\<lparr>name = nm, patterns =
          [\<lparr>pattern_pos = 0, pattern_notes = [\<lparr>key = k, pos = 0, len = 48\<rparr>]\<rparr>]\<rparr>]
       = map_option (\<lambda>octave. \<lparr>movement_title = ''title of piece goes here'',
           part_list = [\<lparr>score_part_id = ''P1'', part_name = nm\<rparr>],
           parts = [\<lparr>part_id = ''P1'',
             measures = [\<lparr>number = ''1'', children =
               [AttributesEl ''8'' ''0'' ''4'' ''4'' sign line,
                NoteEl False [c] sharp (str octave) ''8'' ''quarter'',
                RestEl ''8'' ''quarter'', RestEl ''8'' ''quarter'', RestEl ''8'' ''quarter'']\<rparr>],
             measures_entry = Some 1\<rparr>]\<rparr>) (int_div k 12)
   \<and> (\<bar>k\<bar> < 2 ^ 53 \<longrightarrow> int_div k 12 = Some (if 0 \<le> k then k div 12 else - ((- k) div 12)))
   \<and> (\<forall>octave. sum_list (map elementDuration
         [AttributesEl ''8'' ''0'' ''4'' ''4'' sign line,
          NoteEl False [c] sharp (str octave) ''8'' ''quarter'',
          RestEl ''8'' ''quarter'', RestEl ''8'' ''quarter'', RestEl ''8'' ''quarter'']) = 32)"
proof -
  obtain c sharp where p: "dict_get NOTES (k mod 12) = Some (c # (if sharp then ''#'' else []))"
    using NOTES_total by blast
  let ?sign = "if nm \<in> BASS_INSTRUMENTS then ''F'' else ''G''"
  let ?line = "if nm \<in> BASS_INSTRUMENTS then ''4'' else ''2''"
  have clef: "dict_get CLEF_TYPE (if nm \<in> BASS_INSTRUMENTS then ''bass'' else ''treble'')
      = Some (?sign, ?line)"
    by (simp add: dict_get_def CLEF_TYPE_def)
  have conv: "convert [\<lparr>name = nm, patterns =
          [\<lparr>pattern_pos = 0, pattern_notes = [\<lparr>key = k, pos = 0, len = 48\<rparr>]\<rparr>]\<rparr>]
       = map_option (\<lambda>octave. \<lparr>movement_title = ''title of piece goes here'',
           part_list = [\<lparr>score_part_id = ''P1'', part_name = nm\<rparr>],
           parts = [\<lparr>part_id = ''P1'',
             measures = [\<lparr>number = ''1'', children =
               [AttributesEl ''8'' ''0'' ''4'' ''4'' ?sign ?line,
                NoteEl False [c] sharp (str octave) ''8'' ''quarter'',
                RestEl ''8'' ''quarter'', RestEl ''8'' ''quarter'', RestEl ''8'' ''quarter'']\<rparr>],
             measures_entry = Some 1\<rparr>]\<rparr>) (int_div k 12)"
    using assms
    by (cases "int_div k 12")
      (simp_all add: convert_def layoutTrack_def single_notes single_layout [OF p] str_values
        padParts_def padPart_def)
  have oct: "\<bar>k\<bar> < 2 ^ 53 \<longrightarrow> int_div k 12 = Some (if 0 \<le> k then k div 12 else - ((- k) div 12))"
    using int_div_exact [of k 12] by simp
  have dur: "\<forall>octave. sum_list (map elementDuration
         [AttributesEl ''8'' ''0'' ''4'' ''4'' ?sign ?line,
          NoteEl False [c] sharp (str octave) ''8'' ''quarter'',
          RestEl ''8'' ''quarter'', RestEl ''8'' ''quarter'', RestEl ''8'' ''quarter'']) = 32"
    using single_durations by blast
  show ?thesis
    using p clef conv oct dur by blast
qed

theorem convert_single_note_witness:
  "''piano'' \<in> INSTRUMENTS \<and> \<bar>60 :: int\<bar> < 2 ^ 53
   \<and> convert [\<lparr>name = ''piano'', patterns =
          [\<lparr>pattern_pos = 0, pattern_notes = [\<lparr>key = 60, pos = 0, len = 48\<rparr>]\<rparr>]\<rparr>]
       = Some \<lparr>movement_title = ''title of piece goes here'',
           part_list = [\<lparr>score_part_id = ''P1'', part_name = ''piano''\<rparr>],
           parts = [\<lparr>part_id = ''P1'',
             measures = [\<lparr>number = ''1'', children =
               [AttributesEl ''8'' ''0'' ''4'' ''4'' ''G'' ''2'',
                NoteEl False ''C'' False ''5'' ''8'' ''quarter'',
                RestEl ''8'' ''quarter'', RestEl ''8'' ''quarter'', RestEl ''8'' ''quarter'']\<rparr>],
             measures_entry = Some 1\<rparr>]\<rparr>"
proof -
  have i: "''piano'' \<in> INSTRUMENTS" by (simp add: INSTRUMENTS_def)
  have b: "''piano'' \<notin> BASS_INSTRUMENTS" by (simp add: BASS_INSTRUMENTS_def)
  have o: "str 5 = ''5''" by (simp add: str_def str_nat.simps)
  show ?thesis
    using convert_single_note [OF i, of 60] i b o
    by (auto simp: dict_get_def NOTES_def CLEF_TYPE_def split: if_splits)
qed

text \<open>
  Claim C2 fails on the code. A recognised track without notes followed by a recognised
  track with a note: the second loop does not advance \<open>instrumentCounter\<close> for the empty
  track, so the next part gets the same id \<open>P1\<close> and is removed with it; the part list
  keeps the declaration \<open>P2\<close> of the second track, and no part body is left. Without the
  empty track the same track yields its part.
\<close>

theorem convert_empty_track_removes_next:
  "convert [\<lparr>name = ''piano'', patterns = []\<rparr>,
            \<lparr>name = ''violin'', patterns =
               [\<lparr>pattern_pos = 0, pattern_notes = [\<lparr>key = 61, pos = 0, len = 48\<rparr>]\<rparr>]\<rparr>]
     = Some \<lparr>movement_title = ''title of piece goes here'',
         part_list = [\<lparr>score_part_id = ''P2'', part_name = ''violin''\<rparr>],
         parts = []\<rparr>
   \<and> convert [\<lparr>name = ''violin'', patterns =
               [\<lparr>pattern_pos = 0, pattern_notes = [\<lparr>key = 61, pos = 0, len = 48\<rparr>]\<rparr>]\<rparr>]
     = Some \<lparr>movement_title = ''title of piece goes here'',
         part_list = [\<lparr>score_part_id = ''P1'', part_name = ''violin''\<rparr>],
         parts = [\<lparr>part_id = ''P1'',
           measures = [\<lparr>number = ''1'', children =
             [AttributesEl ''8'' ''0'' ''4'' ''4'' ''G'' ''2'',
              NoteEl False ''C'' True ''5'' ''8'' ''quarter'',
              RestEl ''8'' ''quarter'', RestEl ''8'' ''quarter'', RestEl ''8'' ''quarter'']\<rparr>],
           measures_entry = Some 1\<rparr>]\<rparr>"
  by code_simp

section \<open>Properties of the measure numbering and the final padding\<close>

lemma addRests_number: "number (addRests m rs) = number m"
  by (induction m rs rule: addRests.induct) (simp_all add: foldl_addRest_number)

lemma addNote_number: "addNote m n ch T = Some m' \<Longrightarrow> number m' = number m"
  by (auto simp add: addNote_def bind_eq_Some_conv)

lemma padMeasure_number: "padMeasure T x following m = Some m' \<Longrightarrow> number m' = number m"
  by (auto simp add: padMeasure_def Let_def bind_eq_Some_conv addRests_number split: if_splits)

lemma placeNote_number: "placeNote T prev x seen m = Some m' \<Longrightarrow> number m' = number m"
  by (auto simp add: placeNote_def Let_def bind_eq_Some_conv addRests_number
      dest!: addNote_number split: if_splits)

lemma placeNoteInNewMeasure_number:
  "placeNoteInNewMeasure T x seen m = Some m' \<Longrightarrow> number m' = number m"
  by (auto simp add: placeNoteInNewMeasure_def Let_def bind_eq_Some_conv addRests_number
      dest!: addNote_number split: if_splits)

lemma upto_shift: "map (\<lambda>i. f (i + c)) [a..b] = map f [a + c..b + c]"
proof (induction a b rule: upto.induct)
  case (1 i j)
  show ?case
  proof (cases "i \<le> j")
    case True
    have "[i..j] = i # [i + 1..j]" using True by (simp add: upto_rec1)
    moreover have "[i + c..j + c] = (i + c) # [i + 1 + c..j + c]"
      using True upto_rec1 [of "i + c" "j + c"] by (simp add: add.commute add.left_commute)
    ultimately show ?thesis using 1 [OF True] by simp
  next
    case False
    then show ?thesis by simp
  qed
qed

lemma upto_split3:
  fixes l m :: int
  assumes "1 \<le> l" "l < m"
  shows "[1..m] = [1..l] @ [l + 1..m - 1] @ [m]"
proof -
  have "[1..m] = [1..l] @ [l + 1..m]"
    using assms upto_split2 [of 1 l m] by simp
  moreover have "[l + 1..m] = [l + 1..m - 1] @ [m]"
    using assms upto_rec2 [of "l + 1" m] by simp
  ultimately show ?thesis by simp
qed

lemma layoutStep_numbers:
  assumes "layoutStep T prev x following s = Some s'"
    "map number (closed s @ [currMeasure s]) = map str [1..lastMeasureNum s]"
    "1 \<le> lastMeasureNum s" "lastMeasureNum s \<le> snd x"
    "case prev of None \<Rightarrow> lastMeasureNum s = snd x | Some pn \<Rightarrow> snd pn = lastMeasureNum s"
  shows "map number (closed s' @ [currMeasure s']) = map str [1..lastMeasureNum s']
    \<and> lastMeasureNum s' = snd x \<and> partMeasure s' = snd x"
proof (cases "lastMeasureNum s = snd x")
  case True
  then obtain m m' where m: "placeNote T prev x (positionsSeen s) (currMeasure s) = Some m"
      "padMeasure T x following m = Some m'"
      "s' = s\<lparr>currMeasure := m', positionsSeen := insert (pos (fst x)) (positionsSeen s),
                  partMeasure := snd x, lastMeasureNum := snd x\<rparr>"
    using assms(1) by (auto simp add: layoutStep_def Let_def bind_eq_Some_conv)
  have "number m' = number (currMeasure s)"
    using placeNote_number [OF m(1)] padMeasure_number [OF m(2)] by simp
  then show ?thesis using assms(2) True m(3) by simp
next
  case False
  then obtain pn where pn: "prev = Some pn" "snd pn = lastMeasureNum s"
    using assms(5) by (cases prev) auto
  have lt: "lastMeasureNum s < snd x" using False assms(4) by simp
  obtain m m' where m: "placeNoteInNewMeasure T x (positionsSeen s) (addNewMeasure (snd x)) = Some m"
      "padMeasure T x following m = Some m'"
      "s' = s\<lparr>closed := closed s @ [currMeasure s]
               @ map (\<lambda>i. addRestMeasure (snd pn + i + 1)) [0..snd x - lastMeasureNum s - 1 - 1],
             currMeasure := m', positionsSeen := insert (pos (fst x)) (positionsSeen s),
             partMeasure := snd x, lastMeasureNum := snd x\<rparr>"
    using assms(1) False pn(1) by (auto simp add: layoutStep_def Let_def bind_eq_Some_conv)
  have n: "number m' = str (snd x)"
    using placeNoteInNewMeasure_number [OF m(1)] padMeasure_number [OF m(2)]
    by (simp add: addNewMeasure_def)
  have "map number (map (\<lambda>i. addRestMeasure (snd pn + i + 1)) [0..snd x - lastMeasureNum s - 1 - 1])
      = map (\<lambda>i. str (i + (lastMeasureNum s + 1))) [0..snd x - lastMeasureNum s - 1 - 1]"
    by (simp add: addRestMeasure_def pn(2) add.commute add.left_commute)
  also have "\<dots> = map str [0 + (lastMeasureNum s + 1)..snd x - lastMeasureNum s - 1 - 1 + (lastMeasureNum s + 1)]"
    by (rule upto_shift)
  also have "\<dots> = map str [lastMeasureNum s + 1..snd x - 1]"
    by simp
  finally have r: "map number (map (\<lambda>i. addRestMeasure (snd pn + i + 1)) [0..snd x - lastMeasureNum s - 1 - 1])
      = map str [lastMeasureNum s + 1..snd x - 1]" .
  have "map number (closed s' @ [currMeasure s'])
      = map str [1..lastMeasureNum s] @ map str [lastMeasureNum s + 1..snd x - 1] @ [str (snd x)]"
    using assms(2) r n unfolding m(3) by simp
  also have "\<dots> = map str [1..snd x]"
    using upto_split3 [OF assms(3) lt] by simp
  finally show ?thesis unfolding m(3) by simp
qed

lemma layoutLoop_numbers:
  "layoutLoop T prev ns s = Some s' \<Longrightarrow>
   map number (closed s @ [currMeasure s]) = map str [1..lastMeasureNum s] \<Longrightarrow>
   1 \<le> lastMeasureNum s \<Longrightarrow> sorted (lastMeasureNum s # map snd ns) \<Longrightarrow>
   (case prev of None \<Rightarrow> (case ns of [] \<Rightarrow> True | x # _ \<Rightarrow> lastMeasureNum s = snd x)
      | Some pn \<Rightarrow> snd pn = lastMeasureNum s) \<Longrightarrow>
   map number (closed s' @ [currMeasure s']) = map str [1..lastMeasureNum s']
     \<and> (ns \<noteq> [] \<longrightarrow> partMeasure s' = lastMeasureNum s')
     \<and> lastMeasureNum s' = last (lastMeasureNum s # map snd ns)"
proof (induction ns arbitrary: prev s)
  case Nil
  then show ?case by simp
next
  case (Cons x ns)
  obtain s1 where s1: "layoutStep T prev x ns s = Some s1" "layoutLoop T (Some x) ns s1 = Some s'"
    using Cons.prems(1) by (auto simp add: bind_eq_Some_conv)
  have le: "lastMeasureNum s \<le> snd x" using Cons.prems(4) by simp
  have pr: "case prev of None \<Rightarrow> lastMeasureNum s = snd x | Some pn \<Rightarrow> snd pn = lastMeasureNum s"
    using Cons.prems(5) by (cases prev) auto
  have st: "map number (closed s1 @ [currMeasure s1]) = map str [1..lastMeasureNum s1]"
      "lastMeasureNum s1 = snd x" "partMeasure s1 = snd x"
    using layoutStep_numbers [OF s1(1) Cons.prems(2,3) le pr] by simp_all
  have one: "1 \<le> lastMeasureNum s1" using st(2) le Cons.prems(3) by simp
  have so: "sorted (lastMeasureNum s1 # map snd ns)" using Cons.prems(4) st(2) by simp
  have pr1: "case Some x of None \<Rightarrow> (case ns of [] \<Rightarrow> True | y # _ \<Rightarrow> lastMeasureNum s1 = snd y)
      | Some pn \<Rightarrow> snd pn = lastMeasureNum s1"
    using st(2) by simp
  have ih: "map number (closed s' @ [currMeasure s']) = map str [1..lastMeasureNum s']
     \<and> (ns \<noteq> [] \<longrightarrow> partMeasure s' = lastMeasureNum s')
     \<and> lastMeasureNum s' = last (lastMeasureNum s1 # map snd ns)"
    using Cons.IH [OF s1(2) st(1) one so pr1] .
  show ?case
  proof (cases ns)
    case Nil
    then have "s' = s1" using s1(2) by simp
    then show ?thesis using st Nil by simp
  next
    case (Cons y ys)
    then show ?thesis using ih by simp
  qed
qed

lemma those_map_values:
  "those (map g xs) = Some ys \<Longrightarrow> (\<And>x y. x \<in> set xs \<Longrightarrow> g x = Some y \<Longrightarrow> h y = k x)
     \<Longrightarrow> map h ys = map k xs"
proof (induction xs arbitrary: ys)
  case Nil
  then show ?case by simp
next
  case (Cons a xs)
  obtain y rest where s: "g a = Some y" "those (map g xs) = Some rest" "ys = y # rest"
    using Cons.prems(1) by (auto split: option.splits)
  have "map h rest = map k xs"
    using Cons.IH [OF s(2)] Cons.prems(2) by simp
  moreover have "h y = k a" using Cons.prems(2) [of a y] s(1) by simp
  ultimately show ?case using s(3) by simp
qed

lemma createFirstMeasure_number:
  "createFirstMeasure c clef r = Some m \<Longrightarrow> number m = str c"
  by (auto simp add: createFirstMeasure_def createMeasure_def Let_def bind_eq_Some_conv)

lemma firstMeasures_numbers:
  assumes "firstMeasures nm f = Some (before, m)" "1 \<le> f"
  shows "map number (before @ [m]) = map str [1..f]"
proof (cases "f = 1")
  case True
  then show ?thesis
    using assms(1)
    by (auto simp add: firstMeasures_def Let_def bind_eq_Some_conv dest!: createFirstMeasure_number)
next
  case False
  let ?clef = "if nm \<in> BASS_INSTRUMENTS then ''bass'' else ''treble''"
  let ?g = "\<lambda>i. if i = 0 then createFirstMeasure (i + 1) ?clef True
                                     else Some (addRestMeasure (i + 1))"
  have r: "those (map ?g [0..f - 1 - 1]) = Some before" "m = addNewMeasure f"
    using assms(1) False by (auto simp add: firstMeasures_def Let_def bind_eq_Some_conv)
  have "map number before = map (\<lambda>i. str (i + 1)) [0..f - 1 - 1]"
  proof (rule those_map_values [OF r(1)])
    fix x y
    assume "?g x = Some y"
    then show "number y = str (x + 1)"
      by (auto simp add: addRestMeasure_def dest!: createFirstMeasure_number split: if_splits)
  qed
  also have "\<dots> = map str [0 + 1..f - 1 - 1 + 1]" by (rule upto_shift)
  finally have b: "map number before = map str [1..f - 1]" by simp
  have "[1..f] = [1..f - 1] @ [f]" using assms(2) upto_rec2 [of 1 f] by simp
  then show ?thesis using b r(2) by (simp add: addNewMeasure_def)
qed

lemma layoutPart_numbers:
  assumes "layoutPart nm tagged = Some (ms, final)" "sorted (map snd tagged)"
    "\<forall>p \<in> set tagged. 1 \<le> snd p"
  shows "map number ms = map str [1..final] \<and> 1 \<le> final"
proof -
  obtain x xs where n: "tagged = x # xs"
    using assms(1) by (cases tagged) (simp_all add: layoutPart_def)
  obtain before m s where l: "firstMeasures nm (snd x) = Some (before, m)"
      "layoutLoop (createLengthTable tagged) None tagged
         \<lparr>closed = before, currMeasure = m, lastMeasureNum = snd x, positionsSeen = {},
          partMeasure = 0\<rparr> = Some s"
      "ms = closed s @ [currMeasure s]" "final = partMeasure s"
    using assms(1) unfolding n layoutPart_def
    by (auto simp add: Let_def bind_eq_Some_conv)
  let ?s0 = "\<lparr>closed = before, currMeasure = m, lastMeasureNum = snd x, positionsSeen = {},
          partMeasure = 0\<rparr>"
  have one: "1 \<le> snd x" using assms(3) n by simp
  have i0: "map number (closed ?s0 @ [currMeasure ?s0]) = map str [1..lastMeasureNum ?s0]"
    using firstMeasures_numbers [OF l(1) one] by simp
  have so: "sorted (lastMeasureNum ?s0 # map snd tagged)" using assms(2) n by simp
  have r: "map number (closed s @ [currMeasure s]) = map str [1..lastMeasureNum s]
     \<and> (tagged \<noteq> [] \<longrightarrow> partMeasure s = lastMeasureNum s)
     \<and> lastMeasureNum s = last (lastMeasureNum ?s0 # map snd tagged)"
    by (rule layoutLoop_numbers [OF l(2) i0 _ so]) (simp_all add: one n)
  have f: "final = lastMeasureNum s" using r l(4) n by simp
  have "lastMeasureNum s = snd (last tagged)" using r n by (simp add: last_map)
  moreover have "last tagged \<in> set tagged" using n by simp
  ultimately have "1 \<le> final" using f assms(3) by auto
  then show ?thesis using r l(3) f by simp
qed

lemma highestNumMeasures_ge:
  "h \<le> highestNumMeasures h ps
   \<and> (\<forall>p \<in> set ps. \<forall>m. measures_entry p = Some m \<longrightarrow> m \<le> highestNumMeasures h ps)"
proof (induction ps arbitrary: h)
  case Nil
  then show ?case by simp
next
  case (Cons a ps)
  let ?h = "case measures_entry a of Some m \<Rightarrow> if m > h then m else h | None \<Rightarrow> h"
  have ih: "?h \<le> highestNumMeasures ?h ps
   \<and> (\<forall>p \<in> set ps. \<forall>m. measures_entry p = Some m \<longrightarrow> m \<le> highestNumMeasures ?h ps)"
    by (rule Cons.IH)
  have "h \<le> ?h" by (simp split: option.splits)
  moreover have "\<forall>m. measures_entry a = Some m \<longrightarrow> m \<le> ?h" by simp
  ultimately show ?case using ih by (auto simp del: upto.simps) 
qed

lemma highestNumMeasures_attained:
  "highestNumMeasures h ps = h \<or> (\<exists>p \<in> set ps. measures_entry p = Some (highestNumMeasures h ps))"
proof (induction ps arbitrary: h)
  case Nil
  then show ?case by simp
next
  case (Cons a ps)
  let ?h = "case measures_entry a of Some m \<Rightarrow> if m > h then m else h | None \<Rightarrow> h"
  have ih: "highestNumMeasures ?h ps = ?h
      \<or> (\<exists>p \<in> set ps. measures_entry p = Some (highestNumMeasures ?h ps))"
    by (rule Cons.IH)
  have "?h = h \<or> measures_entry a = Some ?h" by (simp split: option.splits)
  then show ?case using ih by auto
qed

lemma removeEmpty_filter:
  "removeEmpty ids (ps, pl) =
     (filter (\<lambda>p. part_id p \<notin> set ids) ps, filter (\<lambda>p. score_part_id p \<notin> set ids) pl)"
proof (induction ids arbitrary: ps pl)
  case Nil
  then show ?case by simp
next
  case (Cons a ids)
  show ?case
    unfolding removeEmpty.simps Cons.IH by (auto intro: filter_cong)
qed

lemma layoutTrack_numbers:
  assumes "layoutTrack st el = Some st'"
    "name el \<in> INSTRUMENTS \<longrightarrow> (\<forall>tagged. patternNotes (patterns el) = Some tagged
        \<longrightarrow> sorted (map snd tagged) \<and> (\<forall>p \<in> set tagged. 1 \<le> snd p))"
    "\<forall>p \<in> set (score_parts st). (case measures_entry p of None \<Rightarrow> part_id p \<in> set (emptyInstruments st) | Some m \<Rightarrow> 1 \<le> m \<and> map number (measures p) = map str [1..m])"
  shows "\<forall>p \<in> set (score_parts st'). (case measures_entry p of None \<Rightarrow> part_id p \<in> set (emptyInstruments st') | Some m \<Rightarrow> 1 \<le> m \<and> map number (measures p) = map str [1..m])"
proof (cases "name el \<in> INSTRUMENTS")
  case False
  then have eq: "st' = st" using assms(1) by (simp add: layoutTrack_def)
  show ?thesis using assms(3) unfolding eq .
next
  case True
  obtain tagged where t: "patternNotes (patterns el) = Some tagged"
    using assms(1) True by (auto simp add: layoutTrack_def bind_eq_Some_conv Let_def)
  show ?thesis
  proof (cases "length tagged = 0")
    case e: True
    have "st' = st\<lparr>score_parts := score_parts st @
                [\<lparr>part_id = ''P'' @ str (instrumentCounter st), measures = [], measures_entry = None\<rparr>],
              emptyInstruments := emptyInstruments st @ [''P'' @ str (instrumentCounter st)]\<rparr>"
      using assms(1) True t e by (simp add: layoutTrack_def Let_def)
    then show ?thesis using assms(3) by (auto split: option.splits)
  next
    case ne: False
    obtain ms final where l: "layoutPart (name el) tagged = Some (ms, final)"
        "st' = st\<lparr>score_parts := score_parts st @
                [\<lparr>part_id = ''P'' @ str (instrumentCounter st), measures = ms,
                  measures_entry = Some final\<rparr>],
              instrumentCounter := instrumentCounter st + 1\<rparr>"
      using assms(1) True t ne by (auto simp add: layoutTrack_def Let_def bind_eq_Some_conv)
    have "map number ms = map str [1..final] \<and> 1 \<le> final"
      using layoutPart_numbers [OF l(1)] assms(2) True t by blast
    then show ?thesis using assms(3) l(2) by (auto split: option.splits)
  qed
qed

lemma layoutTracks_numbers:
  "layoutTracks st tracks = Some st' \<Longrightarrow>
   \<forall>el \<in> set tracks. name el \<in> INSTRUMENTS \<longrightarrow> (\<forall>tagged. patternNotes (patterns el) = Some tagged
        \<longrightarrow> sorted (map snd tagged) \<and> (\<forall>p \<in> set tagged. 1 \<le> snd p)) \<Longrightarrow>
   \<forall>p \<in> set (score_parts st). (case measures_entry p of None \<Rightarrow> part_id p \<in> set (emptyInstruments st) | Some m \<Rightarrow> 1 \<le> m \<and> map number (measures p) = map str [1..m]) \<Longrightarrow>
   \<forall>p \<in> set (score_parts st'). (case measures_entry p of None \<Rightarrow> part_id p \<in> set (emptyInstruments st') | Some m \<Rightarrow> 1 \<le> m \<and> map number (measures p) = map str [1..m])"
proof (induction tracks arbitrary: st)
  case Nil
  then have eq: "st' = st" by simp
  show ?case using Nil.prems(3) unfolding eq .
next
  case (Cons el tracks)
  obtain st1 where s: "layoutTrack st el = Some st1" "layoutTracks st1 tracks = Some st'"
    using Cons.prems(1) by (auto simp add: bind_eq_Some_conv)
  have "\<forall>p \<in> set (score_parts st1). (case measures_entry p of None \<Rightarrow> part_id p \<in> set (emptyInstruments st1) | Some m \<Rightarrow> 1 \<le> m \<and> map number (measures p) = map str [1..m])"
    using layoutTrack_numbers [OF s(1) _ Cons.prems(3)] Cons.prems(2) by simp
  then show ?case using Cons.IH [OF s(2)] Cons.prems(2) by simp
qed

lemma padPart_numbers:
  assumes "measures_entry A = Some m" "1 \<le> m" "m \<le> M"
    "map number (measures A) = map str [1..m]"
  shows "measures (padPart M A) = measures A @ map addRestMeasure [m + 1..M]
    \<and> map number (measures (padPart M A)) = map str [1..M]
    \<and> length (map addRestMeasure [m + 1..M]) = nat (M - m)"
proof -
  have a: "measures (padPart M A) = measures A @ map addRestMeasure [m + 1..M]"
    using assms(1,3) by (simp add: padPart_def)
  have "map number (map addRestMeasure [m + 1..M]) = map str [m + 1..M]"
    by (simp add: addRestMeasure_def)
  moreover have "[1..M] = [1..m] @ [m + 1..M]"
    using assms(2,3) upto_split2 [of 1 m M] by simp
  ultimately have "map number (measures (padPart M A)) = map str [1..M]"
    using a assms(4) by simp
  then show ?thesis using a by simp
qed

text \<open>
  Claim C9, as amended. Let the conversion return, and let the measure numbers of the
  notes of every instrument, in the order of \<open>patternNotes\<close>, be at least 1 and never
  decrease. With \<open>M\<close> the value of \<open>highestNumMeasures\<close> after the first loop over
  \<open>partMeasures\<close>: every part \<open>A\<close> with an entry \<open>m_A\<close> in \<open>partMeasures\<close> has
  \<open>m_A \<le> M\<close> and the measures numbered 1 to \<open>m_A\<close>; the second loop appends to it exactly
  the \<open>M - m_A\<close> whole-rest measures numbered \<open>m_A + 1\<close> to \<open>M\<close>; \<open>M\<close> is the entry of a part;
  and every part of the final document has the measures numbered 1 to \<open>M\<close>.
\<close>

theorem convert_equal_measures:
  assumes "convert tracks = Some doc"
    and "\<forall>el \<in> set tracks. name el \<in> INSTRUMENTS \<longrightarrow>
      (\<forall>tagged. patternNotes (patterns el) = Some tagged
        \<longrightarrow> sorted (map snd tagged) \<and> (\<forall>p \<in> set tagged. 1 \<le> snd p))"
  shows "\<exists>st M.
     layoutTracks \<lparr>instrumentCounter = 1, score_parts = [], emptyInstruments = []\<rparr> tracks = Some st
   \<and> M = highestNumMeasures 0 (score_parts st)
   \<and> (\<forall>i < length (score_parts st). \<forall>m_A. measures_entry (score_parts st ! i) = Some m_A \<longrightarrow>
         m_A \<le> M
       \<and> map number (measures (score_parts st ! i)) = map str [1..m_A]
       \<and> measures (padParts (score_parts st) ! i)
            = measures (score_parts st ! i) @ map addRestMeasure [m_A + 1..M]
       \<and> length (map addRestMeasure [m_A + 1..M]) = nat (M - m_A)
       \<and> map number (measures (padParts (score_parts st) ! i)) = map str [1..M]
       \<and> (\<exists>B \<in> set (score_parts st). measures_entry B = Some M))
   \<and> (\<forall>p \<in> set (parts doc). map number (measures p) = map str [1..M])"
proof -
  let ?st0 = "\<lparr>instrumentCounter = 1, score_parts = [], emptyInstruments = []\<rparr>"
  obtain st where st: "layoutTracks ?st0 tracks = Some st"
      "parts doc = filter (\<lambda>p. part_id p \<notin> set (emptyInstruments st)) (padParts (score_parts st))"
    using assms(1)
    by (auto simp add: convert_def Let_def bind_eq_Some_conv removeEmpty_filter)
  define M where "M = highestNumMeasures 0 (score_parts st)"
  have num: "\<forall>p \<in> set (score_parts st). (case measures_entry p of None \<Rightarrow> part_id p \<in> set (emptyInstruments st) | Some m \<Rightarrow> 1 \<le> m \<and> map number (measures p) = map str [1..m])"
    by (rule layoutTracks_numbers [OF st(1) assms(2)]) simp
  have le: "m \<le> M" if "A \<in> set (score_parts st)" "measures_entry A = Some m" for A m
    using that highestNumMeasures_ge [of 0 "score_parts st"] unfolding M_def by blast
  have each: "m \<le> M \<and> map number (measures A) = map str [1..m]
      \<and> measures (padPart M A) = measures A @ map addRestMeasure [m + 1..M]
      \<and> length (map addRestMeasure [m + 1..M]) = nat (M - m)
      \<and> map number (measures (padPart M A)) = map str [1..M]
      \<and> (\<exists>B \<in> set (score_parts st). measures_entry B = Some M)"
    if A: "A \<in> set (score_parts st)" "measures_entry A = Some m" for A m
  proof -
    have n: "1 \<le> m" "map number (measures A) = map str [1..m]"
      using num A by (auto split: option.splits)
    have l: "m \<le> M" using le [OF A] .
    have "M \<noteq> 0" using n(1) l by simp
    then have "\<exists>B \<in> set (score_parts st). measures_entry B = Some M"
      using highestNumMeasures_attained [of 0 "score_parts st"] unfolding M_def by simp
    then show ?thesis using padPart_numbers [OF A(2) n(1) l n(2)] n(2) l by blast
  qed
  have a: "\<forall>i < length (score_parts st). \<forall>m_A. measures_entry (score_parts st ! i) = Some m_A \<longrightarrow>
         m_A \<le> M
       \<and> map number (measures (score_parts st ! i)) = map str [1..m_A]
       \<and> measures (padParts (score_parts st) ! i)
            = measures (score_parts st ! i) @ map addRestMeasure [m_A + 1..M]
       \<and> length (map addRestMeasure [m_A + 1..M]) = nat (M - m_A)
       \<and> map number (measures (padParts (score_parts st) ! i)) = map str [1..M]
       \<and> (\<exists>B \<in> set (score_parts st). measures_entry B = Some M)"
  proof (intro allI impI)
    fix i m_A
    assume i: "i < length (score_parts st)" and e: "measures_entry (score_parts st ! i) = Some m_A"
    have pp: "padParts (score_parts st) ! i = padPart M (score_parts st ! i)"
      using i by (simp add: padParts_def M_def)
    show "m_A \<le> M
       \<and> map number (measures (score_parts st ! i)) = map str [1..m_A]
       \<and> measures (padParts (score_parts st) ! i)
            = measures (score_parts st ! i) @ map addRestMeasure [m_A + 1..M]
       \<and> length (map addRestMeasure [m_A + 1..M]) = nat (M - m_A)
       \<and> map number (measures (padParts (score_parts st) ! i)) = map str [1..M]
       \<and> (\<exists>B \<in> set (score_parts st). measures_entry B = Some M)"
      using each [OF nth_mem [OF i] e] unfolding pp by blast
  qed
  have b: "\<forall>p \<in> set (parts doc). map number (measures p) = map str [1..M]"
  proof
    fix p
    assume "p \<in> set (parts doc)"
    then obtain A where A: "A \<in> set (score_parts st)" "p = padPart M A"
        "part_id p \<notin> set (emptyInstruments st)"
      unfolding st(2) by (auto simp add: padParts_def M_def)
    have "part_id p = part_id A" using A(2) by (simp add: padPart_def split: option.splits)
    then obtain m where m: "measures_entry A = Some m"
      using num A(1,3) by (cases "measures_entry A") auto
    show "map number (measures p) = map str [1..M]"
      using each [OF A(1) m] unfolding A(2) by blast
  qed
  show ?thesis using st(1) M_def a b by blast
qed

theorem convert_equal_measures_witness:
  "map_option (map partNumbers) (map_option parts (convert
       [\<lparr>name = ''piano'', patterns =
          [\<lparr>pattern_pos = 0, pattern_notes = [\<lparr>key = 60, pos = 0, len = 48\<rparr>]\<rparr>,
           \<lparr>pattern_pos = 576, pattern_notes = [\<lparr>key = 62, pos = 0, len = 48\<rparr>]\<rparr>]\<rparr>,
        \<lparr>name = ''violin'', patterns =
          [\<lparr>pattern_pos = 0, pattern_notes = [\<lparr>key = 64, pos = 0, len = 48\<rparr>]\<rparr>,
           \<lparr>pattern_pos = 960, pattern_notes = [\<lparr>key = 65, pos = 0, len = 48\<rparr>]\<rparr>]\<rparr>]))
     = Some [([''1'', ''2'', ''3'', ''4'', ''5'', ''6''], Some 4),
             ([''1'', ''2'', ''3'', ''4'', ''5'', ''6''], Some 6)]"
proof -
  let ?piano = "[\<lparr>pattern_pos = 0, pattern_notes = [\<lparr>key = 60, pos = 0, len = 48\<rparr>]\<rparr>,
           \<lparr>pattern_pos = 576, pattern_notes = [\<lparr>key = 62, pos = 0, len = 48\<rparr>]\<rparr>]"
  let ?violin = "[\<lparr>pattern_pos = 0, pattern_notes = [\<lparr>key = 64, pos = 0, len = 48\<rparr>]\<rparr>,
           \<lparr>pattern_pos = 960, pattern_notes = [\<lparr>key = 65, pos = 0, len = 48\<rparr>]\<rparr>]"
  let ?tracks = "[\<lparr>name = ''piano'', patterns = ?piano\<rparr>, \<lparr>name = ''violin'', patterns = ?violin\<rparr>]"
  have v: "map_option (map partNumbers) (map_option parts (convert ?tracks))
     = Some [([''1'', ''2'', ''3'', ''4'', ''5'', ''6''], Some 4),
             ([''1'', ''2'', ''3'', ''4'', ''5'', ''6''], Some 6)]"
    by code_simp
  obtain doc where d: "convert ?tracks = Some doc"
    using v by (cases "convert ?tracks") simp_all
  have p1: "patternNotes ?piano = Some [(\<lparr>key = 60, pos = 0, len = 48\<rparr>, 1),
      (\<lparr>key = 62, pos = 576, len = 48\<rparr>, 4)]"
    by code_simp
  have p2: "patternNotes ?violin = Some [(\<lparr>key = 64, pos = 0, len = 48\<rparr>, 1),
      (\<lparr>key = 65, pos = 960, len = 48\<rparr>, 6)]"
    by code_simp
  have h: "\<forall>el \<in> set ?tracks. name el \<in> INSTRUMENTS \<longrightarrow>
      (\<forall>tagged. patternNotes (patterns el) = Some tagged
        \<longrightarrow> sorted (map snd tagged) \<and> (\<forall>p \<in> set tagged. 1 \<le> snd p))"
    by (auto simp add: p1 p2)
  obtain M where "\<forall>p \<in> set (parts doc). map number (measures p) = map str [1..M]"
    using convert_equal_measures [OF d h] by blast
  then show ?thesis using v by simp
qed

text \<open>
  Each condition is needed. When the measure numbers decrease (a chunk at 0 listing its
  note at 200 before its note at 0, beside a chunk at 0 with a note at 100, gives the
  measures 2, 1, 2), the part gets the measures 1, 2, 1, 2 and the entry 2; beside a part
  with the entry 3 it is padded with the measure 3 and has five measures, the other part
  three. When a measure number is below 1 (a chunk at \<open>- 192\<close>, measure 0), the part has
  the one measure 0 and the entry 0.
\<close>

theorem convert_equal_measures_counterexample:
  "map_option (map partNumbers) (map_option parts (convert
       [\<lparr>name = ''piano'', patterns =
          [\<lparr>pattern_pos = 0, pattern_notes = [\<lparr>key = 60, pos = 200, len = 48\<rparr>,
              \<lparr>key = 60, pos = 0, len = 48\<rparr>]\<rparr>,
           \<lparr>pattern_pos = 0, pattern_notes = [\<lparr>key = 62, pos = 100, len = 48\<rparr>]\<rparr>]\<rparr>,
        \<lparr>name = ''violin'', patterns =
          [\<lparr>pattern_pos = 384, pattern_notes = [\<lparr>key = 64, pos = 0, len = 48\<rparr>]\<rparr>]\<rparr>]))
     = Some [([''1'', ''2'', ''1'', ''2'', ''3''], Some 2), ([''1'', ''2'', ''3''], Some 3)]
   \<and> map_option (map partNumbers) (map_option parts (convert
       [\<lparr>name = ''piano'', patterns =
          [\<lparr>pattern_pos = - 192, pattern_notes = [\<lparr>key = 60, pos = 0, len = 48\<rparr>]\<rparr>]\<rparr>]))
     = Some [([''0''], Some 0)]"
  by code_simp

end
